theory Spec2Isabelle
  imports Main "HOL-Library.Sublist" "HOL-Library.Log_Nat"
begin

section \<open>Policy engine: wildcard patterns\<close>

text \<open>
  JavaScript strings are modelled as \<^typ>\<open>string\<close>: a list of 8-bit characters, each
  read as one code unit below 256. \<open>startsWith\<close> and \<open>endsWith\<close> compare code units,
  \<open>slice(0, -1)\<close> drops the last one (\<^const>\<open>butlast\<close>) and \<open>slice(1)\<close> the first
  one (\<^const>\<open>tl\<close>).
\<close>

fun startsWith :: "string \<Rightarrow> string \<Rightarrow> bool" where
  "startsWith s [] = True"
| "startsWith [] (c # t) = False"
| "startsWith (d # s) (c # t) = (d = c \<and> startsWith s t)"

definition endsWith :: "string \<Rightarrow> string \<Rightarrow> bool" where
  "endsWith s t = startsWith (rev s) (rev t)"

definition matchesPattern :: "string \<Rightarrow> string \<Rightarrow> bool" where
  "matchesPattern action pattern =
     (if action = pattern then True
      else if pattern = ''*'' then True
      else if endsWith pattern ''*'' then startsWith action (butlast pattern)
      else if startsWith pattern ''*'' then endsWith action (tl pattern)
      else False)"


section \<open>JavaScript values\<close>

text \<open>
  A JavaScript number is a double: not-a-number, an infinity, or a finite value kept as the
  rational it denotes (the sign of zero is dropped: no comparison below can see it).
  \<open>to_double\<close> rounds a rational to the nearest double, ties to even, as the conversion
  of a numeric literal does: 53 significant bits, exponents from \<open>-1074\<close>, overflow to
  an infinity at \<open>2 ^ 1024\<close>.
\<close>

datatype jsnum = NaN | Fin rat | PInf | NInf

definition floor_log2 :: "rat \<Rightarrow> int" where
  "floor_log2 a =
     (let (n, d) = quotient_of a;
          k = bitlen n - bitlen d
      in if 2 powi k \<le> a then k else k - 1)"

definition round_half_even :: "rat \<Rightarrow> int" where
  "round_half_even x =
     (let f = \<lfloor>x\<rfloor>; r = x - of_int f
      in if r < 1 / 2 then f else if 1 / 2 < r then f + 1 else if even f then f else f + 1)"

definition to_double :: "rat \<Rightarrow> jsnum" where
  "to_double q =
     (if q = 0 then Fin 0
      else let a = \<bar>q\<bar>;
               e = max (floor_log2 a) (- 1022);
               u = 2 powi (e - 52);
               m = round_half_even (a / u)
           in if 1024 \<le> e \<or> (e = 1023 \<and> m = 2 ^ 53)
              then (if 0 < q then PInf else NInf)
              else Fin (sgn q * (of_int m * u)))"

definition negate :: "jsnum \<Rightarrow> jsnum" where
  "negate x = (case x of NaN \<Rightarrow> NaN | Fin q \<Rightarrow> Fin (- q) | PInf \<Rightarrow> NInf | NInf \<Rightarrow> PInf)"

text \<open>The relational operators \<open><\<close>, \<open><=\<close> and \<open>==\<close> on numbers: false whenever
  an operand is not-a-number.\<close>

fun num_lt :: "jsnum \<Rightarrow> jsnum \<Rightarrow> bool" where
  "num_lt NaN y = False"
| "num_lt x NaN = False"
| "num_lt (Fin a) (Fin b) = (a < b)"
| "num_lt (Fin a) PInf = True"
| "num_lt (Fin a) NInf = False"
| "num_lt PInf y = False"
| "num_lt NInf (Fin b) = True"
| "num_lt NInf PInf = True"
| "num_lt NInf NInf = False"

definition num_le :: "jsnum \<Rightarrow> jsnum \<Rightarrow> bool" where
  "num_le x y = (x \<noteq> NaN \<and> y \<noteq> NaN \<and> \<not> num_lt y x)"

definition num_eq :: "jsnum \<Rightarrow> jsnum \<Rightarrow> bool" where
  "num_eq x y = (x \<noteq> NaN \<and> x = y)"

subsection \<open>Numeric strings\<close>

text \<open>
  White space is the set that \<open>\s\<close>, \<open>trim\<close> and the numeric conversions share; of its
  members the code units below 256 are tab, line feed, vertical tab, form feed, carriage
  return, space and no-break space.
\<close>

definition isSpace :: "char \<Rightarrow> bool" where
  "isSpace c = (c \<in> set [CHR 0x09, CHR 0x0A, CHR 0x0B, CHR 0x0C, CHR 0x0D, CHR 0x20, CHR 0xA0])"

definition isDigit :: "char \<Rightarrow> bool" where
  "isDigit c = (c \<in> set ''0123456789'')"

definition digitVal :: "char \<Rightarrow> int" where
  "digitVal c =
     (if isDigit c then of_char c - 48
      else if c \<in> set ''abcdef'' then of_char c - 87
      else of_char c - 55)"

definition radixValue :: "int \<Rightarrow> string \<Rightarrow> int" where
  "radixValue b ds = foldl (\<lambda>a c. b * a + digitVal c) 0 ds"

definition exponentPart :: "string \<Rightarrow> int \<times> string" where
  \<comment> \<open>ExponentPart: \<open>e\<close> or \<open>E\<close>, an optional sign, at least one digit; the exponent and
      the rest, or exponent 0 and the whole input when there is no exponent part\<close>
  "exponentPart s =
     (case s of
        [] \<Rightarrow> (0, s)
      | c # r \<Rightarrow>
          if c = CHR ''e'' \<or> c = CHR ''E'' then
            (let (neg, r') =
                   (case r of
                      [] \<Rightarrow> (False, r)
                    | d # r2 \<Rightarrow> if d = CHR ''-'' then (True, r2)
                               else if d = CHR ''+'' then (False, r2) else (False, r));
                 ds = takeWhile isDigit r'
             in if ds = [] then (0, s)
                else ((if neg then - radixValue 10 ds else radixValue 10 ds),
                      dropWhile isDigit r'))
          else (0, s))"

definition decimalMV :: "string \<Rightarrow> string \<Rightarrow> int \<Rightarrow> jsnum" where
  \<comment> \<open>the value of integer digits, fraction digits and an exponent, rounded\<close>
  "decimalMV ds fs ex =
     to_double ((of_int (radixValue 10 ds) + of_int (radixValue 10 fs) / 10 ^ length fs)
                * 10 powi ex)"

definition unsignedDecimal :: "string \<Rightarrow> (jsnum \<times> string) option" where
  \<comment> \<open>the longest prefix that is a StrUnsignedDecimalLiteral: its value and the rest\<close>
  "unsignedDecimal s =
     (if startsWith s ''Infinity'' then Some (PInf, drop 8 s)
      else let ds = takeWhile isDigit s; r1 = dropWhile isDigit s in
        if ds \<noteq> [] then
          (case r1 of
             [] \<Rightarrow> Some (decimalMV ds [] 0, [])
           | c # r2 \<Rightarrow>
               if c = CHR ''.'' then
                 (let (ex, r3) = exponentPart (dropWhile isDigit r2)
                  in Some (decimalMV ds (takeWhile isDigit r2) ex, r3))
               else (let (ex, r3) = exponentPart r1 in Some (decimalMV ds [] ex, r3)))
        else
          (case s of
             [] \<Rightarrow> None
           | c # r2 \<Rightarrow>
               if c = CHR ''.'' \<and> takeWhile isDigit r2 \<noteq> [] then
                 (let (ex, r3) = exponentPart (dropWhile isDigit r2)
                  in Some (decimalMV [] (takeWhile isDigit r2) ex, r3))
               else None))"

definition strDecimalLiteral :: "string \<Rightarrow> (jsnum \<times> string) option" where
  "strDecimalLiteral s =
     (case s of
        [] \<Rightarrow> None
      | c # r \<Rightarrow>
          if c = CHR ''+'' then unsignedDecimal r
          else if c = CHR ''-'' then map_option (\<lambda>(v, t). (negate v, t)) (unsignedDecimal r)
          else unsignedDecimal s)"

definition parseFloat :: "string \<Rightarrow> jsnum" where
  \<comment> \<open>the global \<open>parseFloat\<close> on a string: leading white space is skipped, then the longest
      prefix that is a decimal literal counts; none gives not-a-number\<close>
  "parseFloat s =
     (case strDecimalLiteral (dropWhile isSpace s) of None \<Rightarrow> NaN | Some (v, t) \<Rightarrow> v)"

definition trim :: "string \<Rightarrow> string" where
  "trim s = rev (dropWhile isSpace (rev (dropWhile isSpace s)))"

definition nonDecimal :: "string \<Rightarrow> jsnum option" where
  \<comment> \<open>NonDecimalIntegerLiteral: \<open>0x\<close>, \<open>0o\<close>, \<open>0b\<close> (either case) and digits of that base\<close>
  "nonDecimal t =
     (case t of
        z # x # ds \<Rightarrow>
          if z = CHR ''0'' \<and> ds \<noteq> [] then
            (if x \<in> set ''xX'' \<and> list_all (\<lambda>c. c \<in> set ''0123456789abcdefABCDEF'') ds
               then Some (to_double (of_int (radixValue 16 ds)))
             else if x \<in> set ''oO'' \<and> list_all (\<lambda>c. c \<in> set ''01234567'') ds
               then Some (to_double (of_int (radixValue 8 ds)))
             else if x \<in> set ''bB'' \<and> list_all (\<lambda>c. c \<in> set ''01'') ds
               then Some (to_double (of_int (radixValue 2 ds)))
             else None)
          else None
      | _ \<Rightarrow> None)"

definition stringToNumber :: "string \<Rightarrow> jsnum" where
  \<comment> \<open>ToNumber on a string: the whole trimmed text must be a numeric literal; empty is 0\<close>
  "stringToNumber s =
     (let t = trim s in
      if t = [] then Fin 0
      else case nonDecimal t of
             Some v \<Rightarrow> v
           | None \<Rightarrow> (case strDecimalLiteral t of
                         Some (v, []) \<Rightarrow> v
                       | _ \<Rightarrow> NaN))"

subsection \<open>Values\<close>

text \<open>
  The values a context holds. An object (a plain object, an array or a function) is kept
  as the string that its conversion to a primitive yields, \<open>[object Object]\<close> for a plain
  object and \<open>700\<close> for the array \<open>[700]\<close>: no code below looks inside one. Objects with a
  \<open>valueOf\<close> of their own, big integers and symbols are outside the model.
\<close>

datatype jsval = JUndefined | JNull | JBool bool | JNum jsnum | JStr string | JObj string

definition truthy :: "jsval \<Rightarrow> bool" where
  "truthy v =
     (case v of
        JUndefined \<Rightarrow> False
      | JNull \<Rightarrow> False
      | JBool b \<Rightarrow> b
      | JNum n \<Rightarrow> n \<noteq> NaN \<and> n \<noteq> Fin 0
      | JStr s \<Rightarrow> s \<noteq> []
      | JObj s \<Rightarrow> True)"

definition parseFloatVal :: "jsval \<Rightarrow> jsnum" where
  \<comment> \<open>\<open>parseFloat(v)\<close>: \<open>v\<close> is converted to a string first; the string of a number parses
      back to that number\<close>
  "parseFloatVal v =
     (case v of
        JUndefined \<Rightarrow> parseFloat ''undefined''
      | JNull \<Rightarrow> parseFloat ''null''
      | JBool b \<Rightarrow> parseFloat (if b then ''true'' else ''false'')
      | JNum n \<Rightarrow> n
      | JStr s \<Rightarrow> parseFloat s
      | JObj s \<Rightarrow> parseFloat s)"

definition looseEqNum :: "jsval \<Rightarrow> jsnum \<Rightarrow> bool" where
  \<comment> \<open>\<open>v == n\<close> for a number \<open>n\<close>: strings and booleans are converted to numbers, objects to
      their primitive first; \<open>null\<close> and \<open>undefined\<close> equal no number\<close>
  "looseEqNum v n =
     (case v of
        JUndefined \<Rightarrow> False
      | JNull \<Rightarrow> False
      | JBool b \<Rightarrow> num_eq (Fin (if b then 1 else 0)) n
      | JNum m \<Rightarrow> num_eq m n
      | JStr s \<Rightarrow> num_eq (stringToNumber s) n
      | JObj s \<Rightarrow> num_eq (stringToNumber s) n)"

text \<open>
  A context is a plain object: a map of its own properties. A property read that finds no
  own property continues in \<open>Object.prototype\<close>, whose properties are functions, and
  \<open>__proto__\<close>, which reads as the prototype itself.
\<close>

type_synonym jsobject = "string \<rightharpoonup> jsval"

definition objectPrototype :: "string \<Rightarrow> jsval" where
  "objectPrototype k =
     (if k = ''constructor'' then JObj ''function Object() { [native code] }''
      else if k \<in> set [''toString'', ''toLocaleString'', ''valueOf'', ''hasOwnProperty'',
                        ''isPrototypeOf'', ''propertyIsEnumerable'', ''__defineGetter__'',
                        ''__defineSetter__'', ''__lookupGetter__'', ''__lookupSetter__'']
        then JObj (''function '' @ k @ ''() { [native code] }'')
      else if k = ''__proto__'' then JObj ''[object Object]''
      else JUndefined)"

definition getProp :: "jsobject \<Rightarrow> string \<Rightarrow> jsval" where
  "getProp ctx k = (case ctx k of Some v \<Rightarrow> v | None \<Rightarrow> objectPrototype k)"

section \<open>Policy engine: conditions\<close>

text \<open>
  \<open>condition.match(/(\w+)\s*([><=!]+)\s*(.+)/)\<close>. The search tries each start index from
  the left; at an index every quantifier is greedy and gives characters back one at a
  time, the later quantifier first. \<open>greedy P m s\<close> lists the ways to split off a run of
  \<open>P\<close> of length at least \<open>m\<close>, longest first; \<open>.\<close> matches anything but a line
  terminator.
\<close>

definition isWord :: "char \<Rightarrow> bool" where
  "isWord c =
     (c \<in> set ''abcdefghijklmnopqrstuvwxyzABCDEFGHIJKLMNOPQRSTUVWXYZ0123456789_'')"

definition isOp :: "char \<Rightarrow> bool" where
  "isOp c = (c \<in> set ''><=!'')"

definition isLineTerminator :: "char \<Rightarrow> bool" where
  "isLineTerminator c = (c = CHR 0x0A \<or> c = CHR 0x0D)"

definition greedy :: "(char \<Rightarrow> bool) \<Rightarrow> nat \<Rightarrow> string \<Rightarrow> (string \<times> string) list" where
  "greedy P m s =
     map (\<lambda>k. (take k s, drop k s)) (rev [m ..< Suc (length (takeWhile P s))])"

definition matchHere :: "string \<Rightarrow> (string \<times> string \<times> string) list" where
  "matchHere s =
     [(w, ops, takeWhile (\<lambda>c. \<not> isLineTerminator c) r4).
        (w, r1) \<leftarrow> greedy isWord 1 s,
        (sp1, r2) \<leftarrow> greedy isSpace 0 r1,
        (ops, r3) \<leftarrow> greedy isOp 1 r2,
        (sp2, r4) \<leftarrow> greedy isSpace 0 r3,
        r4 \<noteq> [] \<and> \<not> isLineTerminator (hd r4)]"

fun conditionMatch :: "string \<Rightarrow> (string \<times> string \<times> string) option" where
  "conditionMatch [] = None"
| "conditionMatch (c # s) =
     (case matchHere (c # s) of
        m # ms \<Rightarrow> Some m
      | [] \<Rightarrow> conditionMatch s)"

definition evaluateCondition :: "string \<Rightarrow> jsobject \<Rightarrow> bool" where
  "evaluateCondition condition ctx =
     (case conditionMatch condition of
        None \<Rightarrow> False
      | Some (field, operator, valueStr) \<Rightarrow>
          (let contextValue = getProp ctx field;
               v = parseFloat (filter (\<lambda>c. c \<noteq> CHR ''$'' \<and> c \<noteq> CHR '','') valueStr)
           in if contextValue = JUndefined then False
              else if operator = ''>'' then num_lt v (parseFloatVal contextValue)
              else if operator = ''<'' then num_lt (parseFloatVal contextValue) v
              else if operator = ''>='' then num_le v (parseFloatVal contextValue)
              else if operator = ''<='' then num_le (parseFloatVal contextValue) v
              else if operator = ''=='' then looseEqNum contextValue v
              else if operator = ''!='' then \<not> looseEqNum contextValue v
              else False))"

section \<open>Rules, decisions and audit entries\<close>

text \<open>
  An escalation rule is a string pattern or an object with optional \<open>action\<close> and
  \<open>condition\<close> strings. A decision is the object that \<open>checkPermission\<close> returns.
\<close>

datatype rule = StringRule string | ObjectRule "string option" "string option"

record decision =
  allowed :: bool
  reason :: string
  requiresEscalation :: bool
  escalationRule :: "rule option"

text \<open>
  An audit entry, as \<open>writeEntry\<close> receives it and as a line of the log reads back.
  \<open>agentId\<close>, \<open>action\<close> and \<open>decision\<close> are \<open>None\<close> where the entry has no such
  property; \<open>decision\<close> is a policy decision, or the reviewer's verdict in an
  \<open>escalation_resolution\<close> entry. The properties that \<open>hashEntry\<close> never reads are kept
  together in the body of the entry.
\<close>

datatype hval = HUndefined | HNull | HStr string

datatype decisionField = PolicyDecision decision | ResolutionDecision jsval

record verification =
  verified :: bool
  v_reason :: string
  v_trustScore :: int

datatype body =
    DecisionBody jsobject int
      \<comment> \<open>context, durationMs\<close>
  | ActionBody jsobject bool jsval jsval
      \<comment> \<open>details, result.success, result.output, result.error\<close>
  | EscalationBody jsobject string string string
      \<comment> \<open>context, escalationReason, assignedTo, status\<close>
  | ResolutionBody jsval jsval jsval
      \<comment> \<open>escalationId, resolvedBy, notes\<close>
  | IdentityBody string verification
      \<comment> \<open>verificationType, result\<close>

record entry =
  e_type :: string
  e_timestamp :: string
  e_timestampUnix :: int
  e_agentId :: "string option"
  e_action :: "string option"
  e_decision :: "decisionField option"
  e_body :: body
  e_previousHash :: hval
  e_hash :: hval

type_synonym hashed =
  "string \<times> string \<times> string option \<times> string option \<times> decisionField option \<times> hval"

text \<open>
  A line of a log file, by what the readers of the file make of its text: the JSON text
  of an entry; \<open>Malformed\<close>, text with a character other than white space that
  \<open>JSON.parse\<close> rejects (or the text \<open>null\<close>, whose properties cannot be read);
  \<open>WhiteSpace\<close>, one or more white-space characters and nothing else; \<open>Empty\<close>, no
  character at all. A file is the list of its lines, each ended by a line feed.
\<close>

datatype line = Entry entry | Malformed | WhiteSpace | Empty

definition blank :: "line \<Rightarrow> bool" where
  "blank l = (l = WhiteSpace \<or> l = Empty)"

text \<open>
  The content of a file is trimmed and split at the line feeds. \<open>trim\<close> removes the
  white space at both ends of the content, line feeds included, so the blank lines
  before the first and after the last line that is not blank are gone; a content of
  blank lines only is split into one empty line. \<open>filter(l => l)\<close> then drops the empty
  lines that are left; a line of white space is a truthy string and stays.
\<close>

definition trimSplit :: "line list \<Rightarrow> line list" where
  "trimSplit ls =
     (let trimmed = rev (dropWhile blank (rev (dropWhile blank ls)))
      in if trimmed = [] then [Empty] else trimmed)"

definition nonEmptyLines :: "line list \<Rightarrow> line list" where
  "nonEmptyLines ls = filter (\<lambda>l. l \<noteq> Empty) (trimSplit ls)"

section \<open>The platform\<close>

text \<open>
  What the code takes from the platform and the model does not compute: the clock (the
  \<open>n\<close>-th reading of \<open>Date\<close>, in milliseconds), \<open>toISOString\<close>, the SHA-256 hex digest
  of the JSON text of the six hashed properties, the byte size of a log file,
  \<open>JSON.stringify\<close> of a rule and of a context, and signature verification
  (\<open>crypto.createVerify\<close>, false when it throws). The theorems hold for every platform.

  \<open>JSON.stringify(entry)\<close> and \<open>fs.appendFileSync\<close> at the end of \<open>writeEntry\<close> either
  return or throw (a circular or BigInt value in the entry's context or result, an I/O
  error): which of the two is the \<open>completion\<close> of the call.
\<close>

datatype completion = Returns | Throws

record env =
  time_at :: "nat \<Rightarrow> int"
  toISOString :: "int \<Rightarrow> string"
  sha256_json :: "hashed \<Rightarrow> string"
  fileSize :: "line list \<Rightarrow> nat"
  stringifyRule :: "rule \<Rightarrow> string"
  stringifyContext :: "jsobject \<Rightarrow> string"
  cryptoVerify :: "string \<Rightarrow> jsval \<Rightarrow> jsval \<Rightarrow> bool"

section \<open>Policy engine: evaluation of rules\<close>

fun matchesConditional :: "rule \<Rightarrow> string \<Rightarrow> jsobject \<Rightarrow> bool" where
  "matchesConditional (ObjectRule ruleAction ruleCondition) action ctx =
     (if (case ruleAction of
            None \<Rightarrow> False
          | Some p \<Rightarrow> p \<noteq> [] \<and> \<not> matchesPattern action p)
      then False
      else case ruleCondition of
             None \<Rightarrow> False
           | Some c \<Rightarrow> if c \<noteq> [] then evaluateCondition c ctx else False)"
| "matchesConditional (StringRule s) action ctx = False"

fun checkEscalation :: "env \<Rightarrow> rule list \<Rightarrow> string \<Rightarrow> jsobject \<Rightarrow> decision option" where
  "checkEscalation E [] action ctx = None"
| "checkEscalation E (StringRule s # rules) action ctx =
     (if matchesPattern action s
      then Some \<lparr>allowed = False,
                 reason = ''Action requires human escalation: '' @ s,
                 requiresEscalation = True,
                 escalationRule = Some (StringRule s)\<rparr>
      else checkEscalation E rules action ctx)"
| "checkEscalation E (ObjectRule a c # rules) action ctx =
     (if matchesConditional (ObjectRule a c) action ctx
      then Some \<lparr>allowed = False,
                 reason = ''Action requires human escalation: '' @ stringifyRule E (ObjectRule a c),
                 requiresEscalation = True,
                 escalationRule = Some (ObjectRule a c)\<rparr>
      else checkEscalation E rules action ctx)"

text \<open>\<open>matchesRules\<close> returns the first rule that matches, \<open>None\<close> for \<open>{matches: false}\<close>.\<close>

fun matchesRules :: "string \<Rightarrow> string list \<Rightarrow> string option" where
  "matchesRules action [] = None"
| "matchesRules action (r # rules) =
     (if matchesPattern action r then Some r else matchesRules action rules)"

record permissions =
  allow :: "string list option"
  deny :: "string list option"
  escalate :: "rule list option"

record policy =
  permissionsOf :: "permissions option"

section \<open>Audit logger\<close>

text \<open>
  The state of the process: the clock's read count, the audit logger (its current log
  file, \<open>None\<close> while the file does not exist, the rotated files, \<open>lastHash\<close> and its
  options) and the identity system (the \<open>identities\<close> and \<open>trustScores\<close> maps). The
  logger is one object shared by the policy engine, the identity system and the agent.
\<close>

record identity =
  publicKey :: string
  status :: string
  id_trustScore :: int
  verificationHistory :: "(string \<times> string \<times> bool) list"
  lastVerified :: "string option"
  revokedAt :: "string option"
  revocationReason :: "string option"

record world =
  clock :: nat
  currentLog :: "line list option"
  rotatedLogs :: "line list list"
  lastHash :: hval
  rotationSizeMB :: nat
  enableChainValidation :: bool
  identities :: "string \<rightharpoonup> identity"
  trustScores :: "string \<rightharpoonup> int"

definition dateNow :: "env \<Rightarrow> world \<Rightarrow> int \<times> world" where
  "dateNow E w = (time_at E (clock w), w\<lparr>clock := Suc (clock w)\<rparr>)"

definition sensitiveFields :: "string list" where
  "sensitiveFields = [''password'', ''token'', ''secret'', ''apiKey'', ''ssn'', ''creditCard'']"

definition sanitizeContext :: "jsobject \<Rightarrow> jsobject" where
  "sanitizeContext ctx =
     foldl (\<lambda>sanitized field.
              if truthy (getProp sanitized field)
              then sanitized(field \<mapsto> JStr ''[REDACTED]'')
              else sanitized)
           ctx sensitiveFields"

definition hashEntry :: "env \<Rightarrow> entry \<Rightarrow> string" where
  "hashEntry E e =
     sha256_json E
       (e_type e, e_timestamp e, e_agentId e, e_action e, e_decision e, e_previousHash e)"

definition shouldRotate :: "env \<Rightarrow> world \<Rightarrow> bool" where
  \<comment> \<open>\<open>statSync\<close> throws when the file does not exist: the answer is then \<open>false\<close>\<close>
  "shouldRotate E w =
     (case currentLog w of
        None \<Rightarrow> False
      | Some ls \<Rightarrow> rotationSizeMB w * 1048576 < fileSize E ls)"

definition rotateLogFile :: "env \<Rightarrow> world \<Rightarrow> world" where
  \<comment> \<open>called only when \<open>shouldRotate\<close> holds, so the file exists; the two clock readings
      name the files\<close>
  "rotateLogFile E w =
     (case currentLog w of
        None \<Rightarrow> w
      | Some ls \<Rightarrow>
          w\<lparr>clock := Suc (Suc (clock w)),
            rotatedLogs := rotatedLogs w @ [ls],
            currentLog := None,
            lastHash := HNull\<rparr>)"

text \<open>
  \<open>writeEntry\<close> rotates the file when it is due, sets \<open>previousHash\<close> and \<open>hash\<close> on the
  entry and \<open>lastHash\<close> on the logger, and only then serialises the entry and appends the
  line. When that last step throws, the exception leaves \<open>writeEntry\<close> with \<open>lastHash\<close>
  already moved on and nothing appended; the result is the state the call leaves behind
  in either case.
\<close>

definition writeEntry :: "env \<Rightarrow> completion \<Rightarrow> entry \<Rightarrow> world \<Rightarrow> world" where
  "writeEntry E c entry w =
     (let w1 = (if shouldRotate E w then rotateLogFile E w else w);
          chained = entry\<lparr>e_previousHash := lastHash w1\<rparr>;
          entry' = (if enableChainValidation w1
                    then chained\<lparr>e_hash := HStr (hashEntry E chained)\<rparr>
                    else entry);
          w2 = (if enableChainValidation w1 then w1\<lparr>lastHash := e_hash entry'\<rparr> else w1)
      in case c of
           Throws \<Rightarrow> w2
         | Returns \<Rightarrow>
             w2\<lparr>currentLog :=
                  Some ((case currentLog w2 of None \<Rightarrow> [] | Some ls \<Rightarrow> ls)
                        @ [Entry entry'])\<rparr>)"

definition getLastHash :: "line list option \<Rightarrow> hval" where
  \<comment> \<open>the constructor's reading of the current file: \<open>null\<close> when there is no file or
      the last line of the trimmed content does not parse\<close>
  "getLastHash file =
     (case file of
        None \<Rightarrow> HNull
      | Some ls \<Rightarrow>
          (case last (trimSplit ls) of Entry e \<Rightarrow> e_hash e | _ \<Rightarrow> HNull))"

text \<open>
  The five log functions build the entry and call \<open>writeEntry\<close>. They are taken where
  that call returns; when it throws, the exception passes through them to their caller.
\<close>

definition logDecision ::
  "env \<Rightarrow> string \<Rightarrow> string \<Rightarrow> jsobject \<Rightarrow> decision \<Rightarrow> int \<Rightarrow> world \<Rightarrow> world" where
  "logDecision E agentId action ctx d durationMs w =
     (let (t1, w1) = dateNow E w; (t2, w2) = dateNow E w1
      in writeEntry E Returns
           \<lparr>e_type = ''policy_decision'', e_timestamp = toISOString E t1,
            e_timestampUnix = t2, e_agentId = Some agentId, e_action = Some action,
            e_decision = Some (PolicyDecision
                                 \<lparr>allowed = allowed d, reason = reason d,
                                  requiresEscalation = requiresEscalation d,
                                  escalationRule = escalationRule d\<rparr>),
            e_body = DecisionBody (sanitizeContext ctx) durationMs,
            e_previousHash = HUndefined, e_hash = HUndefined\<rparr> w2)"

definition logAction ::
  "env \<Rightarrow> string \<Rightarrow> string \<Rightarrow> jsobject \<Rightarrow> bool \<times> jsval \<times> jsval \<Rightarrow> world \<Rightarrow> world" where
  "logAction E agentId action details result w =
     (let (t1, w1) = dateNow E w; (t2, w2) = dateNow E w1;
          (ok, output, err) = result
      in writeEntry E Returns
           \<lparr>e_type = ''agent_action'', e_timestamp = toISOString E t1,
            e_timestampUnix = t2, e_agentId = Some agentId, e_action = Some action,
            e_decision = None,
            e_body = ActionBody (sanitizeContext details) ok output err,
            e_previousHash = HUndefined, e_hash = HUndefined\<rparr> w2)"

definition logEscalation ::
  "env \<Rightarrow> string \<Rightarrow> string \<Rightarrow> jsobject \<Rightarrow> string \<Rightarrow> string \<Rightarrow> world \<Rightarrow> int \<times> world" where
  "logEscalation E agentId action ctx escalationReason assignedTo w =
     (let (t1, w1) = dateNow E w; (t2, w2) = dateNow E w1
      in (t2,
          writeEntry E Returns
            \<lparr>e_type = ''escalation'', e_timestamp = toISOString E t1,
             e_timestampUnix = t2, e_agentId = Some agentId, e_action = Some action,
             e_decision = None,
             e_body = EscalationBody (sanitizeContext ctx) escalationReason assignedTo
                        ''pending'',
             e_previousHash = HUndefined, e_hash = HUndefined\<rparr> w2))"

definition logEscalationResolution ::
  "env \<Rightarrow> jsval \<Rightarrow> jsval \<Rightarrow> jsval \<Rightarrow> jsval \<Rightarrow> world \<Rightarrow> world" where
  "logEscalationResolution E escalationId resolvedBy verdict notes w =
     (let (t1, w1) = dateNow E w; (t2, w2) = dateNow E w1
      in writeEntry E Returns
           \<lparr>e_type = ''escalation_resolution'', e_timestamp = toISOString E t1,
            e_timestampUnix = t2, e_agentId = None, e_action = None,
            e_decision = (if verdict = JUndefined then None
                          else Some (ResolutionDecision verdict)),
            e_body = ResolutionBody escalationId resolvedBy notes,
            e_previousHash = HUndefined, e_hash = HUndefined\<rparr> w2)"

definition logIdentityVerification ::
  "env \<Rightarrow> string \<Rightarrow> string \<Rightarrow> verification \<Rightarrow> world \<Rightarrow> world" where
  "logIdentityVerification E agentId verificationType result w =
     (let (t1, w1) = dateNow E w; (t2, w2) = dateNow E w1
      in writeEntry E Returns
           \<lparr>e_type = ''identity_verification'', e_timestamp = toISOString E t1,
            e_timestampUnix = t2, e_agentId = Some agentId, e_action = None,
            e_decision = None,
            e_body = IdentityBody verificationType
                       \<lparr>verified = verified result, v_reason = v_reason result,
                        v_trustScore = v_trustScore result\<rparr>,
            e_previousHash = HUndefined, e_hash = HUndefined\<rparr> w2)"

text \<open>
  \<open>verifyChain\<close> reads the file, trims and splits the content, drops the empty lines
  and walks through the lines that are left. The verdict is the object it returns:
  \<open>{valid: true, entries}\<close>, or \<open>{valid: false, error}\<close> with the error text naming a
  line, counted from 1 among the lines that are left. \<open>JSON.parse\<close> throws on a line of
  white space as on any other text that is not JSON.
\<close>

datatype verdict =
    Valid nat
  | LogFileNotFound
  | HashChainBroken nat
  | EntryHashMismatch nat
  | InvalidJSON nat

fun verifyLines :: "env \<Rightarrow> line list \<Rightarrow> nat \<Rightarrow> hval \<Rightarrow> nat \<Rightarrow> verdict" where
  "verifyLines E [] i previousHash validEntries = Valid validEntries"
| "verifyLines E (Malformed # ls) i previousHash validEntries = InvalidJSON (i + 1)"
| "verifyLines E (WhiteSpace # ls) i previousHash validEntries = InvalidJSON (i + 1)"
| "verifyLines E (Empty # ls) i previousHash validEntries = InvalidJSON (i + 1)"
| "verifyLines E (Entry e # ls) i previousHash validEntries =
     (if e_previousHash e \<noteq> previousHash then HashChainBroken (i + 1)
      else if e_hash e \<noteq> HStr (hashEntry E e) then EntryHashMismatch (i + 1)
      else verifyLines E ls (i + 1) (e_hash e) (validEntries + 1))"

definition verifyChain :: "env \<Rightarrow> line list option \<Rightarrow> verdict" where
  "verifyChain E file =
     (case file of
        None \<Rightarrow> LogFileNotFound
      | Some ls \<Rightarrow> verifyLines E (nonEmptyLines ls) 0 HNull 0)"

definition valid :: "verdict \<Rightarrow> bool" where
  "valid v = (case v of Valid n \<Rightarrow> True | _ \<Rightarrow> False)"

section \<open>Policy engine: checkPermission\<close>

text \<open>
  Every return of \<open>checkPermission\<close> is preceded by the same call of \<open>logDecision\<close>
  with the time elapsed since \<open>startTime\<close>: \<open>logged\<close> is that pair of statements. The three
  guarded blocks \<open>if (policy.permissions?.escalate)\<close>, \<open>...deny\<close> and \<open>...allow\<close> are
  \<open>escalationStage\<close>, \<open>denyStage\<close> and \<open>allowStage\<close>; each yields what makes the block
  return, or \<open>None\<close> when control falls through it.
\<close>

definition logged ::
  "env \<Rightarrow> string \<Rightarrow> string \<Rightarrow> jsobject \<Rightarrow> int \<Rightarrow> decision \<Rightarrow> world \<Rightarrow> decision \<times> world" where
  "logged E agentId action ctx startTime result w =
     (let (t, w1) = dateNow E w
      in (result, logDecision E agentId action ctx result (t - startTime) w1))"

definition escalationStage :: "env \<Rightarrow> policy \<Rightarrow> string \<Rightarrow> jsobject \<Rightarrow> decision option" where
  "escalationStage E pol action ctx =
     (case permissionsOf pol of
        None \<Rightarrow> None
      | Some perms \<Rightarrow>
          (case escalate perms of
             None \<Rightarrow> None
           | Some rules \<Rightarrow>
               (case checkEscalation E rules action ctx of
                  None \<Rightarrow> None
                | Some escalation \<Rightarrow>
                    if requiresEscalation escalation then Some escalation else None)))"

definition denyStage :: "policy \<Rightarrow> string \<Rightarrow> string option" where
  "denyStage pol action =
     (case permissionsOf pol of
        None \<Rightarrow> None
      | Some perms \<Rightarrow>
          (case deny perms of None \<Rightarrow> None | Some rules \<Rightarrow> matchesRules action rules))"

definition allowStage :: "policy \<Rightarrow> string \<Rightarrow> string option" where
  "allowStage pol action =
     (case permissionsOf pol of
        None \<Rightarrow> None
      | Some perms \<Rightarrow>
          (case allow perms of None \<Rightarrow> None | Some rules \<Rightarrow> matchesRules action rules))"

definition checkPermission ::
  "env \<Rightarrow> (string \<rightharpoonup> policy) \<Rightarrow> string \<Rightarrow> string \<Rightarrow> jsobject \<Rightarrow> world \<Rightarrow> decision \<times> world" where
  "checkPermission E policies agentId action ctx w =
     (let (startTime, w0) = dateNow E w in
      case policies agentId of
        None \<Rightarrow>
          logged E agentId action ctx startTime
            \<lparr>allowed = False, reason = ''No policy found for agent: '' @ agentId,
             requiresEscalation = False, escalationRule = None\<rparr> w0
      | Some pol \<Rightarrow>
          (case escalationStage E pol action ctx of
             Some escalation \<Rightarrow> logged E agentId action ctx startTime escalation w0
           | None \<Rightarrow>
               (case denyStage pol action of
                  Some r \<Rightarrow>
                    logged E agentId action ctx startTime
                      \<lparr>allowed = False,
                       reason = ''Action explicitly denied by policy rule: '' @ r,
                       requiresEscalation = False, escalationRule = None\<rparr> w0
                | None \<Rightarrow>
                    (case allowStage pol action of
                       Some r \<Rightarrow>
                         logged E agentId action ctx startTime
                           \<lparr>allowed = True,
                            reason = ''Action allowed by policy rule: '' @ r,
                            requiresEscalation = False, escalationRule = None\<rparr> w0
                     | None \<Rightarrow>
                         logged E agentId action ctx startTime
                           \<lparr>allowed = False,
                            reason = ''Action not explicitly allowed (default deny)'',
                            requiresEscalation = False, escalationRule = None\<rparr> w0))))"

section \<open>Identity system\<close>

text \<open>
  A method that can throw returns the message of the error (\<open>Inl\<close>, or \<open>Some\<close> where it
  returns nothing) next to the state it leaves behind. Trust scores and amounts are
  integers. Writing an identity to its file (\<open>saveIdentity\<close>) and the console output are
  left out: nothing reads them back; so are the metadata of an identity and the \<open>reason\<close>
  argument of \<open>incrementTrustScore\<close> and \<open>decrementTrustScore\<close>, which only the
  console sees.
\<close>

definition getTrustScore :: "world \<Rightarrow> string \<Rightarrow> int" where
  "getTrustScore w agentId = (case trustScores w agentId of None \<Rightarrow> 0 | Some v \<Rightarrow> v)"

definition createIdentity :: "string \<Rightarrow> string \<Rightarrow> world \<Rightarrow> string option \<times> world" where
  \<comment> \<open>the second argument is the public key that \<open>generateKeyPairSync\<close> returns\<close>
  "createIdentity agentId key w =
     (case identities w agentId of
        Some i \<Rightarrow> (Some (''Identity already exists for agent: '' @ agentId), w)
      | None \<Rightarrow>
          (None,
           w\<lparr>clock := Suc (clock w),
             identities := (identities w)(agentId \<mapsto>
               \<lparr>publicKey = key, status = ''active'', id_trustScore = 100,
                verificationHistory = [], lastVerified = None, revokedAt = None,
                revocationReason = None\<rparr>),
             trustScores := (trustScores w)(agentId \<mapsto> 100)\<rparr>))"

definition setIdentityScore :: "string \<Rightarrow> int \<Rightarrow> world \<Rightarrow> world" where
  \<comment> \<open>\<open>if (identity) { identity.trustScore = newScore; ... }\<close>\<close>
  "setIdentityScore agentId newScore w =
     (case identities w agentId of
        None \<Rightarrow> w
      | Some i \<Rightarrow> w\<lparr>identities := (identities w)(agentId \<mapsto> i\<lparr>id_trustScore := newScore\<rparr>)\<rparr>)"

definition incrementTrustScore :: "string \<Rightarrow> int \<Rightarrow> world \<Rightarrow> world" where
  "incrementTrustScore agentId amount w =
     (let current = getTrustScore w agentId;
          newScore = min 100 (current + amount)
      in setIdentityScore agentId newScore
           (w\<lparr>trustScores := (trustScores w)(agentId \<mapsto> newScore)\<rparr>))"

definition revokeIdentity :: "env \<Rightarrow> string \<Rightarrow> string \<Rightarrow> world \<Rightarrow> string option \<times> world" where
  "revokeIdentity E agentId why w =
     (case identities w agentId of
        None \<Rightarrow> (Some (''Identity not found for agent: '' @ agentId), w)
      | Some i \<Rightarrow>
          (let (t, w1) = dateNow E w;
               w2 = w1\<lparr>identities := (identities w1)(agentId \<mapsto>
                          i\<lparr>status := ''revoked'', revokedAt := Some (toISOString E t),
                            revocationReason := Some why\<rparr>),
                        trustScores := (trustScores w1)(agentId \<mapsto> 0)\<rparr>
           in (None,
               logIdentityVerification E agentId ''revocation''
                 \<lparr>verified = False, v_reason = ''Identity revoked: '' @ why,
                  v_trustScore = 0\<rparr> w2)))"

definition decrementTrustScore :: "env \<Rightarrow> string \<Rightarrow> int \<Rightarrow> world \<Rightarrow> string option \<times> world" where
  "decrementTrustScore E agentId amount w =
     (let current = getTrustScore w agentId;
          newScore = max 0 (current - amount);
          w1 = setIdentityScore agentId newScore
                 (w\<lparr>trustScores := (trustScores w)(agentId \<mapsto> newScore)\<rparr>)
      in if newScore = 0 then revokeIdentity E agentId ''Trust score reached zero'' w1
         else (None, w1))"

definition rotateKeypair :: "string \<Rightarrow> string \<Rightarrow> world \<Rightarrow> string option \<times> world" where
  \<comment> \<open>the second argument is the new public key; archived keys are not kept in the model\<close>
  "rotateKeypair agentId key w =
     (case identities w agentId of
        None \<Rightarrow> (Some (''Identity not found for agent: '' @ agentId), w)
      | Some i \<Rightarrow>
          (None,
           w\<lparr>clock := Suc (Suc (clock w)),
             identities := (identities w)(agentId \<mapsto> i\<lparr>publicKey := key\<rparr>)\<rparr>))"

record credentials =
  signature :: jsval
  message :: jsval

definition verifyIdentity ::
  "env \<Rightarrow> string \<Rightarrow> credentials \<Rightarrow> world \<Rightarrow> (string + verification) \<times> world" where
  "verifyIdentity E agentId cred w =
     (case identities w agentId of
        None \<Rightarrow>
          (let result = \<lparr>verified = False, v_reason = ''Agent identity not found'',
                         v_trustScore = 0\<rparr>
           in (Inr result, logIdentityVerification E agentId ''identity_check'' result w))
      | Some i \<Rightarrow>
          if status i = ''revoked'' then
            (let result = \<lparr>verified = False, v_reason = ''Agent identity has been revoked'',
                           v_trustScore = 0\<rparr>
             in (Inr result, logIdentityVerification E agentId ''identity_check'' result w))
          else if truthy (signature cred) \<and> truthy (message cred)
                  \<and> \<not> cryptoVerify E (publicKey i) (message cred) (signature cred) then
            (case decrementTrustScore E agentId 10 w of
               (Some err, w1) \<Rightarrow> (Inl err, w1)
             | (None, w1) \<Rightarrow>
                 (let result = \<lparr>verified = False, v_reason = ''Invalid signature'',
                                v_trustScore = getTrustScore w1 agentId\<rparr>
                  in (Inr result,
                      logIdentityVerification E agentId ''signature_verification'' result w1)))
          else
            (let trustScore = getTrustScore w agentId in
             if trustScore < 50 then
               (let result = \<lparr>verified = False,
                              v_reason = ''Trust score too low for operation'',
                              v_trustScore = trustScore\<rparr>
                in (Inr result,
                    logIdentityVerification E agentId ''trust_score_check'' result w))
             else
               (let (t, w1) = dateNow E w;
                    history = verificationHistory i @
                                [(toISOString E t,
                                  if truthy (signature cred) then ''signature'' else ''basic'',
                                  True)];
                    i' = i\<lparr>lastVerified := Some (toISOString E t),
                           verificationHistory :=
                             (if 100 < length history
                              then drop (length history - 100) history else history)\<rparr>;
                    w2 = w1\<lparr>identities := (identities w1)(agentId \<mapsto> i')\<rparr>;
                    result = \<lparr>verified = True, v_reason = ''Identity verified successfully'',
                              v_trustScore = trustScore\<rparr>
                in (Inr result,
                    logIdentityVerification E agentId ''identity_check'' result w2))))"

section \<open>Production agent\<close>

text \<open>
  The agent's \<open>execute\<close>. The task acts on state outside the toolkit, of any type: it
  takes the context and that state and gives back the changed state with its output
  (\<open>Inr\<close>) or the message of the error it throws (\<open>Inl\<close>). The result record has one
  field for each property that some return statement sets, \<open>None\<close> where the returned
  object has no such property.
\<close>

record agent =
  agentIdOf :: string
  requireSignature :: bool
  escalationHandler :: "string option"

record execResult =
  success :: bool
  r_error :: "jsval option"
  r_trustScore :: "int option"
  r_requiresEscalation :: "bool option"
  r_escalationId :: "int option"
  r_reason :: "string option"
  r_escalationRule :: "rule option"
  r_policyDenied :: "bool option"
  r_output :: "jsval option"
  r_executionTime :: "int option"
  r_agentId :: "string option"

definition emptyResult :: "bool \<Rightarrow> execResult" where
  "emptyResult ok =
     \<lparr>success = ok, r_error = None, r_trustScore = None, r_requiresEscalation = None,
      r_escalationId = None, r_reason = None, r_escalationRule = None,
      r_policyDenied = None, r_output = None, r_executionTime = None, r_agentId = None\<rparr>"

definition agentVerifyIdentity ::
  "env \<Rightarrow> agent \<Rightarrow> jsobject \<Rightarrow> world \<Rightarrow> (string + verification) \<times> world" where
  "agentVerifyIdentity E ag ctx w =
     verifyIdentity E (agentIdOf ag)
       (if requireSignature ag \<and> truthy (getProp ctx ''signature'')
        then \<lparr>signature = getProp ctx ''signature'',
              message = (if truthy (getProp ctx ''message'') then getProp ctx ''message''
                         else JStr (stringifyContext E ctx))\<rparr>
        else \<lparr>signature = JUndefined, message = JUndefined\<rparr>)
       w"

definition caught :: "env \<Rightarrow> int \<Rightarrow> string \<Rightarrow> world \<Rightarrow> execResult \<times> world" where
  \<comment> \<open>the \<open>catch\<close> block of \<open>execute\<close>\<close>
  "caught E startTime err w =
     (let (t, w1) = dateNow E w
      in ((emptyResult False)\<lparr>r_error := Some (JStr err),
                               r_executionTime := Some (t - startTime)\<rparr>, w1))"

definition runTask ::
  "(jsobject \<Rightarrow> 'x \<Rightarrow> (jsval + jsval) \<times> 'x) option \<Rightarrow> jsobject \<Rightarrow> 'x
     \<Rightarrow> (bool \<times> jsval \<times> jsval) \<times> 'x" where
  \<comment> \<open>step 3: the result object as (success, output, error), absent properties undefined\<close>
  "runTask executor ctx x =
     (case executor of
        None \<Rightarrow> ((True, JUndefined, JUndefined), x)
      | Some task \<Rightarrow>
          (case task ctx x of
             (Inr output, x') \<Rightarrow> ((True, output, JUndefined), x')
           | (Inl msg, x') \<Rightarrow> ((False, JUndefined, msg), x')))"

definition execute ::
  "env \<Rightarrow> (string \<rightharpoonup> policy) \<Rightarrow> agent \<Rightarrow> string \<Rightarrow> jsobject
     \<Rightarrow> (jsobject \<Rightarrow> 'x \<Rightarrow> (jsval + jsval) \<times> 'x) option \<Rightarrow> world \<times> 'x
     \<Rightarrow> execResult \<times> world \<times> 'x" where
  "execute E policies ag action ctx executor wx =
     (let (w, x) = wx; (startTime, w0) = dateNow E w in
      case agentVerifyIdentity E ag ctx w0 of
        (Inl err, w1) \<Rightarrow> (let (r, w2) = caught E startTime err w1 in (r, w2, x))
      | (Inr identityCheck, w1) \<Rightarrow>
          if \<not> verified identityCheck then
            ((emptyResult False)
               \<lparr>r_error := Some (JStr (''Identity verification failed: ''
                                        @ v_reason identityCheck)),
                r_trustScore := Some (v_trustScore identityCheck)\<rparr>, w1, x)
          else
            (let (policyCheck, w2) = checkPermission E policies (agentIdOf ag) action ctx w1 in
             if requiresEscalation policyCheck then
               (let (escalationId, w3) =
                      logEscalation E (agentIdOf ag) action ctx (reason policyCheck)
                        (case escalationHandler ag of
                           None \<Rightarrow> ''human-review''
                         | Some h \<Rightarrow> if h = [] then ''human-review'' else h) w2
                in ((emptyResult False)
                      \<lparr>r_requiresEscalation := Some True,
                       r_escalationId := Some escalationId,
                       r_reason := Some (reason policyCheck),
                       r_escalationRule := escalationRule policyCheck\<rparr>, w3, x))
             else if \<not> allowed policyCheck then
               ((emptyResult False)
                  \<lparr>r_error := Some (JStr (reason policyCheck)),
                   r_policyDenied := Some True\<rparr>, w2, x)
             else
               (let ((ok, output, err), x') = runTask executor ctx x;
                    w3 = logAction E (agentIdOf ag) action ctx (ok, output, err) w2;
                    (thrown, w4) =
                      (if ok then (None, incrementTrustScore (agentIdOf ag) 1 w3)
                       else decrementTrustScore E (agentIdOf ag) 5 w3)
                in case thrown of
                     Some e \<Rightarrow> (let (r, w5) = caught E startTime e w4 in (r, w5, x'))
                   | None \<Rightarrow>
                       (let (t, w5) = dateNow E w4
                        in ((emptyResult ok)
                              \<lparr>r_output := (if output = JUndefined then None else Some output),
                               r_error := (if err = JUndefined then None else Some err),
                               r_executionTime := Some (t - startTime),
                               r_agentId := Some (agentIdOf ag),
                               r_trustScore := Some (getTrustScore w5 (agentIdOf ag))\<rparr>,
                            w5, x')))))"

section \<open>The specification's view of a policy decision\<close>

text \<open>
  The specification describes \<open>evaluate\<close> as five stages over three ordered rule
  lists. \<open>escalateRules\<close>, \<open>denyRules\<close> and \<open>allowRules\<close> are those lists (empty where
  the policy has none), \<open>escalationMatch\<close> says when one escalation rule matches, and
  \<open>specEvaluate\<close> is the algorithm in the specification's words: what it returns as
  \<open>allowed\<close>, \<open>requiresEscalation\<close> and \<open>escalationRule\<close>.
\<close>

definition escalateRules :: "policy \<Rightarrow> rule list" where
  "escalateRules pol =
     (case permissionsOf pol of
        None \<Rightarrow> []
      | Some perms \<Rightarrow> (case escalate perms of None \<Rightarrow> [] | Some rules \<Rightarrow> rules))"

definition denyRules :: "policy \<Rightarrow> string list" where
  "denyRules pol =
     (case permissionsOf pol of
        None \<Rightarrow> []
      | Some perms \<Rightarrow> (case deny perms of None \<Rightarrow> [] | Some rules \<Rightarrow> rules))"

definition allowRules :: "policy \<Rightarrow> string list" where
  "allowRules pol =
     (case permissionsOf pol of
        None \<Rightarrow> []
      | Some perms \<Rightarrow> (case allow perms of None \<Rightarrow> [] | Some rules \<Rightarrow> rules))"

definition escalationMatch :: "rule \<Rightarrow> string \<Rightarrow> jsobject \<Rightarrow> bool" where
  "escalationMatch r action ctx =
     (case r of
        StringRule s \<Rightarrow> matchesPattern action s
      | ObjectRule a c \<Rightarrow> matchesConditional r action ctx)"

definition specEvaluate ::
  "(string \<rightharpoonup> policy) \<Rightarrow> string \<Rightarrow> string \<Rightarrow> jsobject \<Rightarrow> bool \<times> bool \<times> rule option" where
  "specEvaluate policies agentId action ctx =
     (case policies agentId of
        None \<Rightarrow> (False, False, None)
      | Some pol \<Rightarrow>
          (case find (\<lambda>r. escalationMatch r action ctx) (escalateRules pol) of
             Some r \<Rightarrow> (False, True, Some r)
           | None \<Rightarrow>
               (case find (matchesPattern action) (denyRules pol) of
                  Some r \<Rightarrow> (False, False, None)
                | None \<Rightarrow>
                    (case find (matchesPattern action) (allowRules pol) of
                       Some r \<Rightarrow> (True, False, None)
                     | None \<Rightarrow> (False, False, None)))))"

definition escalationDecision :: "env \<Rightarrow> rule \<Rightarrow> decision" where
  "escalationDecision E r =
     \<lparr>allowed = False,
      reason = ''Action requires human escalation: '' @
                 (case r of StringRule s \<Rightarrow> s | ObjectRule a c \<Rightarrow> stringifyRule E r),
      requiresEscalation = True,
      escalationRule = Some r\<rparr>"

text \<open>
  A condition of the shape \<open><field> <op> <value>\<close>: a field of word characters, white
  space (possibly none) around the operator, and a value on one line that does not begin
  with white space or an operator character. \<open>threshold\<close> is the number the value
  denotes: every \<open>$\<close> and \<open>,\<close> removed, then \<open>parseFloat\<close>.
\<close>

definition wellShaped :: "string \<Rightarrow> string \<Rightarrow> string \<Rightarrow> string \<Rightarrow> bool" where
  "wellShaped f sp1 sp2 v =
     (f \<noteq> [] \<and> list_all isWord f \<and> list_all isSpace sp1 \<and> list_all isSpace sp2 \<and>
      v \<noteq> [] \<and> \<not> isSpace (hd v) \<and> \<not> isOp (hd v) \<and>
      list_all (\<lambda>c. \<not> isLineTerminator c) v)"

definition threshold :: "string \<Rightarrow> jsnum" where
  "threshold v = parseFloat (filter (\<lambda>c. c \<noteq> CHR ''$'' \<and> c \<noteq> CHR '','') v)"

definition operators :: "string list" where
  "operators = [''>'', ''<'', ''>='', ''<='', ''=='', ''!='']"

text \<open>The entry that the last line of the current log holds.\<close>

definition lastEntry :: "world \<Rightarrow> entry option" where
  "lastEntry w =
     (case currentLog w of
        None \<Rightarrow> None
      | Some ls \<Rightarrow>
          if ls = [] then None
          else case last ls of Entry e \<Rightarrow> Some e | _ \<Rightarrow> None)"

section \<open>A concrete platform and state\<close>

text \<open>
  An instance of the platform and a freshly constructed logger with no identities, used
  where a statement is evaluated at a concrete input. Its digest is a made-up function
  of the hashed properties; any other serves.
\<close>

definition demoEnv :: env where
  "demoEnv =
     \<lparr>time_at = (\<lambda>n. 1000 + int n),
      toISOString = (\<lambda>t. if t < 1005 then ''early'' else ''late''),
      sha256_json = (\<lambda>(ty, ts, agentId, action, d, prev).
                       ty @ ''/'' @ ts @ ''/'' @ (case prev of HStr h \<Rightarrow> h | _ \<Rightarrow> ''-'')),
      fileSize = length,
      stringifyRule = (\<lambda>r. ''{}''),
      stringifyContext = (\<lambda>c. ''{}''),
      cryptoVerify = (\<lambda>key msg sig. False)\<rparr>"

definition freshWorld :: world where
  "freshWorld =
     \<lparr>clock = 0, currentLog = None, rotatedLogs = [], lastHash = getLastHash None,
      rotationSizeMB = 100, enableChainValidation = True,
      identities = Map.empty, trustScores = Map.empty\<rparr>"

definition demoPolicies :: "string \<rightharpoonup> policy" where
  "demoPolicies =
     [''support'' \<mapsto>
        \<lparr>permissionsOf = Some
           \<lparr>allow = Some [''read:*'', ''refund''],
            deny = Some [''delete:*'', ''refund''],
            escalate = Some [StringRule ''refund_requests'',
                             ObjectRule (Some ''refund'') (Some ''amount > 500'')]\<rparr>\<rparr>]"

section \<open>Segments of the audit log\<close>

text \<open>
  Each ProductionAgent constructs an AuditLogger of its own, on the same default
  directory when it is given no \<open>auditPath\<close>, so several logger objects can append to one
  file. They share the files, and each has a \<open>lastHash\<close> of its own. The state holds the
  \<open>lastHash\<close> of one logger object; \<open>writeEntryOther\<close> is \<open>writeEntry\<close> called on a second
  object with the same options, whose \<open>lastHash\<close> is carried beside the state.

  A \<open>call\<close> of \<open>writeEntry\<close> is made on one of the two objects, returns or throws, and
  passes an entry; \<open>writeCalls\<close> is a sequence of such calls.
\<close>

definition writeEntryOther ::
  "env \<Rightarrow> completion \<Rightarrow> entry \<Rightarrow> hval \<times> world \<Rightarrow> hval \<times> world" where
  "writeEntryOther E c entry s =
     (let w' = writeEntry E c entry ((snd s)\<lparr>lastHash := fst s\<rparr>)
      in (lastHash w', w'\<lparr>lastHash := lastHash (snd s)\<rparr>))"

datatype logger = This | Other

record call =
  c_logger :: logger
  c_completion :: completion
  c_entry :: entry

fun writeCalls :: "env \<Rightarrow> call list \<Rightarrow> hval \<times> world \<Rightarrow> hval \<times> world" where
  "writeCalls E [] s = s"
| "writeCalls E (c # cs) s =
     writeCalls E cs
       (case c_logger c of
          This \<Rightarrow> (fst s, writeEntry E (c_completion c) (c_entry c) (snd s))
        | Other \<Rightarrow> writeEntryOther E (c_completion c) (c_entry c) s)"

text \<open>
  \<open>writeAll\<close> is a sequence of calls of \<open>writeEntry\<close> on one logger object that all
  return, \<open>noRotation\<close> says that none of them finds the file above the rotation size,
  \<open>logLines\<close> are the lines of the current file (none while it does not exist) and
  \<open>hashOf\<close> is the \<open>hash\<close> property of a line.
  \<open>chainState\<close> holds when the logger's \<open>lastHash\<close> belongs to a current file that
  \<open>verifyChain\<close> accepts, as after the constructor has read such a file.
\<close>

fun writeAll :: "env \<Rightarrow> entry list \<Rightarrow> world \<Rightarrow> world" where
  "writeAll E [] w = w"
| "writeAll E (e # es) w = writeAll E es (writeEntry E Returns e w)"

fun noRotation :: "env \<Rightarrow> entry list \<Rightarrow> world \<Rightarrow> bool" where
  "noRotation E [] w = True"
| "noRotation E (e # es) w = (\<not> shouldRotate E w \<and> noRotation E es (writeEntry E Returns e w))"

definition logLines :: "world \<Rightarrow> line list" where
  "logLines w = (case currentLog w of None \<Rightarrow> [] | Some ls \<Rightarrow> ls)"

definition hashOf :: "line \<Rightarrow> hval" where
  "hashOf l = (case l of Entry e \<Rightarrow> e_hash e | _ \<Rightarrow> HUndefined)"

definition endHash :: "line list \<Rightarrow> hval" where
  "endHash ls = (if ls = [] then HNull else hashOf (last ls))"

definition chainState :: "env \<Rightarrow> world \<Rightarrow> bool" where
  "chainState E w =
     (enableChainValidation w
      \<and> verifyLines E (logLines w) 0 HNull 0 = Valid (length (logLines w))
      \<and> lastHash w = endHash (logLines w))"

definition demoDecision :: decision where
  "demoDecision =
     \<lparr>allowed = True, reason = ''Action allowed by policy rule: refund'',
      requiresEscalation = False, escalationRule = None\<rparr>"

definition demoEntry :: "string \<Rightarrow> int \<Rightarrow> entry" where
  "demoEntry agentId amount =
     \<lparr>e_type = ''policy_decision'', e_timestamp = ''2026-02-04T10:00:00.000Z'',
      e_timestampUnix = 1770199200000, e_agentId = Some agentId,
      e_action = Some ''refund'', e_decision = Some (PolicyDecision demoDecision),
      e_body = DecisionBody [''amount'' \<mapsto> JNum (Fin (of_int amount))] 3,
      e_previousHash = HUndefined, e_hash = HUndefined\<rparr>"

definition demoLog :: "line list" where
  "demoLog = logLines (writeAll demoEnv [demoEntry ''a'' 100, demoEntry ''b'' 200] freshWorld)"

definition setBody :: "body \<Rightarrow> line \<Rightarrow> line" where
  "setBody b l = (case l of Entry e \<Rightarrow> Entry (e\<lparr>e_body := b\<rparr>) | _ \<Rightarrow> l)"

definition setType :: "string \<Rightarrow> line \<Rightarrow> line" where
  "setType t l = (case l of Entry e \<Rightarrow> Entry (e\<lparr>e_type := t\<rparr>) | _ \<Rightarrow> l)"

text \<open>
  Two sequences of calls on loggers constructed while the file does not exist: one call
  on each of two logger objects, and a call that throws followed by one that returns.
\<close>

definition bothLoggers :: "hval \<times> world" where
  "bothLoggers = (getLastHash (currentLog freshWorld), freshWorld)"

definition twoLoggers :: "call list" where
  "twoLoggers =
     [\<lparr>c_logger = This, c_completion = Returns, c_entry = demoEntry ''a'' 100\<rparr>,
      \<lparr>c_logger = Other, c_completion = Returns, c_entry = demoEntry ''b'' 200\<rparr>]"

definition failedWrite :: "call list" where
  "failedWrite =
     [\<lparr>c_logger = This, c_completion = Throws, c_entry = demoEntry ''a'' 100\<rparr>,
      \<lparr>c_logger = This, c_completion = Returns, c_entry = demoEntry ''b'' 200\<rparr>]"

definition demoCalls :: "call list" where
  "demoCalls =
     [\<lparr>c_logger = This, c_completion = Returns, c_entry = demoEntry ''a'' 100\<rparr>,
      \<lparr>c_logger = This, c_completion = Returns, c_entry = demoEntry ''b'' 200\<rparr>]"

section \<open>Observations on the state\<close>

text \<open>
  All lines that the logger has written, the rotated files first, and the number of
  entries of one type among them; \<open>revoked\<close> says that an agent has an identity whose
  status is \<open>revoked\<close>.
\<close>

definition allLines :: "world \<Rightarrow> line list" where
  "allLines w = concat (rotatedLogs w) @ logLines w"

definition hasType :: "string \<Rightarrow> line \<Rightarrow> bool" where
  "hasType ty l = (case l of Entry e \<Rightarrow> e_type e = ty | _ \<Rightarrow> False)"

definition countType :: "string \<Rightarrow> world \<Rightarrow> nat" where
  "countType ty w = length (filter (hasType ty) (allLines w))"

definition revoked :: "world \<Rightarrow> string \<Rightarrow> bool" where
  "revoked w agentId =
     (case identities w agentId of None \<Rightarrow> False | Some i \<Rightarrow> status i = ''revoked'')"

text \<open>
  The calls that a client can make on the identity system and the policy engine, and a
  sequence of them; the value a call returns or throws is dropped.
\<close>

datatype operation =
    CreateIdentity string string
  | VerifyIdentity string credentials
  | IncrementTrustScore string int
  | DecrementTrustScore string int
  | RevokeIdentity string string
  | RotateKeypair string string
  | CheckPermission "string \<rightharpoonup> policy" string string jsobject

fun perform :: "env \<Rightarrow> operation \<Rightarrow> world \<Rightarrow> world" where
  "perform E (CreateIdentity a key) w = snd (createIdentity a key w)"
| "perform E (VerifyIdentity a cred) w = snd (verifyIdentity E a cred w)"
| "perform E (IncrementTrustScore a amount) w = incrementTrustScore a amount w"
| "perform E (DecrementTrustScore a amount) w = snd (decrementTrustScore E a amount w)"
| "perform E (RevokeIdentity a why) w = snd (revokeIdentity E a why w)"
| "perform E (RotateKeypair a key) w = snd (rotateKeypair a key w)"
| "perform E (CheckPermission policies a action ctx) w =
     snd (checkPermission E policies a action ctx w)"

fun performAll :: "env \<Rightarrow> operation list \<Rightarrow> world \<Rightarrow> world" where
  "performAll E [] w = w"
| "performAll E (op # ops) w = performAll E ops (perform E op w)"

definition signedBadly :: credentials where
  "signedBadly = \<lparr>signature = JStr ''c2ln'', message = JStr ''pay''\<rparr>"

definition aliceWorld :: world where
  "aliceWorld = snd (createIdentity ''alice'' ''PUBLIC KEY'' freshWorld)"

text \<open>
  \<open>zeroedBySignature\<close> describes the call of \<open>verifyIdentity\<close> in which a failed
  signature check takes the last ten points of trust from an active identity;
  \<open>activeWith\<close> says that an agent's identity is active with a given score.
\<close>

definition zeroedBySignature :: "env \<Rightarrow> string \<Rightarrow> credentials \<Rightarrow> world \<Rightarrow> bool" where
  "zeroedBySignature E agentId cred w =
     (case identities w agentId of
        None \<Rightarrow> False
      | Some i \<Rightarrow>
          status i \<noteq> ''revoked'' \<and> truthy (signature cred) \<and> truthy (message cred)
          \<and> \<not> cryptoVerify E (publicKey i) (message cred) (signature cred)
          \<and> getTrustScore w agentId \<le> 10)"

definition activeWith :: "world \<Rightarrow> string \<Rightarrow> int \<Rightarrow> bool" where
  "activeWith w agentId score =
     (case identities w agentId of
        None \<Rightarrow> False
      | Some i \<Rightarrow> status i = ''active'' \<and> getTrustScore w agentId = score)"

definition nineFailures :: world where
  "nineFailures =
     performAll demoEnv (replicate 9 (VerifyIdentity ''alice'' signedBadly)) aliceWorld"

text \<open>
  The values of the local variables \<open>identityCheck\<close> and \<open>policyCheck\<close> in a call of
  \<open>execute\<close>: what \<open>verifyIdentity\<close> returns after \<open>startTime\<close> has been read, and what
  \<open>checkPermission\<close> returns in the state that the verification leaves.
\<close>

definition identityCheckOf :: "env \<Rightarrow> agent \<Rightarrow> jsobject \<Rightarrow> world \<Rightarrow> string + verification" where
  "identityCheckOf E ag ctx w = fst (agentVerifyIdentity E ag ctx (snd (dateNow E w)))"

definition policyCheckOf ::
  "env \<Rightarrow> (string \<rightharpoonup> policy) \<Rightarrow> agent \<Rightarrow> string \<Rightarrow> jsobject \<Rightarrow> world \<Rightarrow> decision" where
  "policyCheckOf E policies ag action ctx w =
     fst (checkPermission E policies (agentIdOf ag) action ctx
            (snd (agentVerifyIdentity E ag ctx (snd (dateNow E w)))))"

definition supportAgent :: agent where
  "supportAgent = \<lparr>agentIdOf = ''support'', requireSignature = False, escalationHandler = None\<rparr>"

definition supportWorld :: world where
  "supportWorld = snd (createIdentity ''support'' ''PUBLIC KEY'' freshWorld)"

definition countingTask :: "jsobject \<Rightarrow> nat \<Rightarrow> (jsval + jsval) \<times> nat" where
  "countingTask ctx n = (Inr (JStr ''done''), Suc n)"

section \<open>Properties\<close>

lemma startsWith_prefix: "startsWith s t = prefix t s"
  by (induction s t rule: startsWith.induct) auto

lemma endsWith_suffix: "endsWith s t = suffix t s"
  by (simp add: endsWith_def startsWith_prefix suffix_to_prefix)

lemma endsWith_star: "endsWith p ''*'' \<longleftrightarrow> (\<exists>q. p = q @ ''*'')"
  by (auto simp: endsWith_suffix suffix_def)

lemma startsWith_star: "startsWith p ''*'' \<longleftrightarrow> (\<exists>q. p = ''*'' @ q)"
  by (auto simp: startsWith_prefix prefix_def)

text \<open>
  C5. \<open>matchesPattern(action, pattern)\<close> is true exactly when the pattern equals the action,
  or the pattern is \<open>*\<close>, or the pattern is \<open>q*\<close> and the action starts with \<open>q\<close>, or the
  pattern does not end with \<open>*\<close> (the trailing-wildcard check comes first), is \<open>*q\<close>, and
  the action ends with \<open>q\<close>; the four examples of the specification evaluate as stated.
\<close>

theorem matchesPattern_iff:
  "(matchesPattern action pattern \<longleftrightarrow>
      action = pattern \<or> pattern = ''*'' \<or>
      (\<exists>q. pattern = q @ ''*'' \<and> prefix q action) \<or>
      ((\<nexists>q. pattern = q @ ''*'') \<and> (\<exists>q. pattern = ''*'' @ q \<and> suffix q action)))
   \<and> matchesPattern ''read:customer_data'' ''read:*''
   \<and> matchesPattern ''anything:public'' ''*:public''
   \<and> matchesPattern ''x:y'' ''*''
   \<and> \<not> matchesPattern ''write:x'' ''read:*''"
proof -
  have gen: "matchesPattern action pattern \<longleftrightarrow>
      action = pattern \<or> pattern = ''*'' \<or>
      (\<exists>q. pattern = q @ ''*'' \<and> prefix q action) \<or>
      ((\<nexists>q. pattern = q @ ''*'') \<and> (\<exists>q. pattern = ''*'' @ q \<and> suffix q action))"
  proof (cases "action = pattern \<or> pattern = ''*''")
    case True
    then show ?thesis by (auto simp: matchesPattern_def)
  next
    case False
    show ?thesis
    proof (cases "endsWith pattern ''*''")
      case True
      then obtain q where q: "pattern = q @ ''*''" by (auto simp: endsWith_star)
      have "matchesPattern action pattern = prefix q action"
        using False True q by (simp add: matchesPattern_def startsWith_prefix)
      then show ?thesis using False q by auto
    next
      case noend: False
      show ?thesis
      proof (cases "startsWith pattern ''*''")
        case True
        then obtain q where q: "pattern = ''*'' @ q" by (auto simp: startsWith_star)
        have "matchesPattern action pattern = suffix q action"
          using False noend True q by (simp add: matchesPattern_def endsWith_suffix)
        then show ?thesis using False noend q by (auto simp: endsWith_star)
      next
        case nostart: False
        have "\<not> matchesPattern action pattern"
          using False noend nostart by (simp add: matchesPattern_def)
        then show ?thesis using False noend nostart
          by (auto simp: endsWith_star startsWith_star)
      qed
    qed
  qed
  have "matchesPattern ''read:customer_data'' ''read:*''"
    by (simp add: matchesPattern_def endsWith_def)
  moreover have "matchesPattern ''anything:public'' ''*:public''"
    by (simp add: matchesPattern_def endsWith_def)
  moreover have "matchesPattern ''x:y'' ''*''"
    by (simp add: matchesPattern_def)
  moreover have "\<not> matchesPattern ''write:x'' ''read:*''"
    by (simp add: matchesPattern_def endsWith_def)
  ultimately show ?thesis using gen by blast
qed

theorem matchesPattern_iff_witness:
  "matchesPattern ''*:*'' ''*:*'' \<and> \<not> matchesPattern ''x:*'' ''*:*''
   \<and> matchesPattern ''*:x'' ''*:*'' \<and> \<not> matchesPattern ''delete:x'' ''*:public''"
  using matchesPattern_iff [of "''*:*''" "''*:*''"]
    matchesPattern_iff [of "''x:*''" "''*:*''"]
    matchesPattern_iff [of "''*:x''" "''*:*''"]
    matchesPattern_iff [of "''delete:x''" "''*:public''"]
  by (simp add: suffix_def prefix_def)

subsection \<open>The condition parser\<close>

lemma greedy_head:
  "m \<le> length (takeWhile P s) \<Longrightarrow>
   \<exists>rest. greedy P m s = (takeWhile P s, dropWhile P s) # rest"
proof -
  assume m: "m \<le> length (takeWhile P s)"
  let ?n = "length (takeWhile P s)"
  have "rev [m ..< Suc ?n] = ?n # rev [m ..< ?n]"
    using m by simp
  moreover have "take ?n s = takeWhile P s"
    by (rule takeWhile_eq_take [symmetric])
  moreover have "drop ?n s = dropWhile P s"
    by (rule dropWhile_eq_drop [symmetric])
  ultimately show ?thesis
    unfolding greedy_def by simp
qed

lemma greedy_empty: "length (takeWhile P s) < m \<Longrightarrow> greedy P m s = []"
  by (simp add: greedy_def)

lemma run_then_stop:
  assumes "\<forall>c \<in> set a. P c" and "b \<noteq> []" and "\<not> P (hd b)"
  shows "takeWhile P (a @ b) = a" and "dropWhile P (a @ b) = b"
  using assms by (cases b; simp)+

lemma greedy_run:
  assumes "\<forall>c \<in> set a. P c" and "b \<noteq> []" and "\<not> P (hd b)" and "m \<le> length a"
  shows "\<exists>rest. greedy P m (a @ b) = (a, b) # rest"
  using greedy_head [of m P "a @ b"] run_then_stop [OF assms(1-3)] assms(4) by simp

lemma isOp_not_space: "isOp c \<Longrightarrow> \<not> isSpace c"
  by (auto simp: isOp_def isSpace_def)

lemma isSpace_not_word: "isSpace c \<Longrightarrow> \<not> isWord c"
  by (auto simp: isWord_def isSpace_def)

lemma isOp_not_word: "isOp c \<Longrightarrow> \<not> isWord c"
  by (auto simp: isWord_def isOp_def)

lemma matchHere_shape:
  assumes f: "f \<noteq> []" "\<forall>c \<in> set f. isWord c"
    and sp1: "\<forall>c \<in> set sp1. isSpace c"
    and op: "ops \<noteq> []" "\<forall>c \<in> set ops. isOp c"
    and sp2: "\<forall>c \<in> set sp2. isSpace c"
    and v: "v \<noteq> []" "\<not> isSpace (hd v)" "\<not> isOp (hd v)" "\<forall>c \<in> set v. \<not> isLineTerminator c"
  shows "\<exists>rest. matchHere (f @ sp1 @ ops @ sp2 @ v) = (f, ops, v) # rest"
proof -
  have hd_ops: "isOp (hd ops)" using op by (cases ops) auto
  have ne1: "sp1 @ ops @ sp2 @ v \<noteq> []" using op by simp
  have "\<not> isWord (hd (sp1 @ ops @ sp2 @ v))"
    using sp1 hd_ops op(1) by (cases sp1) (auto simp: isSpace_not_word isOp_not_word)
  then obtain t1 where g1: "greedy isWord 1 (f @ sp1 @ ops @ sp2 @ v) = (f, sp1 @ ops @ sp2 @ v) # t1"
    using greedy_run [OF f(2) ne1, of 1] f(1) by (cases f) auto
  have "\<not> isSpace (hd (ops @ sp2 @ v))"
    using hd_ops op(1) by (simp add: isOp_not_space)
  then obtain t2 where g2: "greedy isSpace 0 (sp1 @ ops @ sp2 @ v) = (sp1, ops @ sp2 @ v) # t2"
    using greedy_run [OF sp1, of "ops @ sp2 @ v" 0] op(1) by auto
  have "\<not> isOp (hd (sp2 @ v))"
    using sp2 v by (cases sp2) (auto dest: isOp_not_space)
  then obtain t3 where g3: "greedy isOp 1 (ops @ sp2 @ v) = (ops, sp2 @ v) # t3"
    using greedy_run [OF op(2), of "sp2 @ v" 1] v(1) op(1) by (cases ops) auto
  obtain t4 where g4: "greedy isSpace 0 (sp2 @ v) = (sp2, v) # t4"
    using greedy_run [OF sp2 v(1) v(2), of 0] by auto
  have tw: "takeWhile (\<lambda>c. \<not> isLineTerminator c) v = v"
    using v(4) by (simp add: takeWhile_eq_all_conv)
  have nl: "\<not> isLineTerminator (hd v)" using v(1) v(4) by (cases v) auto
  show ?thesis
    unfolding matchHere_def using g1 g2 g3 g4 tw nl v(1) by simp
qed

lemma conditionMatch_shape:
  assumes "wellShaped f sp1 sp2 v" and "ops \<in> set operators"
  shows "conditionMatch (f @ sp1 @ ops @ sp2 @ v) = Some (f, ops, v)"
proof -
  have ops: "ops \<noteq> []" "\<forall>c \<in> set ops. isOp c"
    using assms(2) by (auto simp: operators_def isOp_def)
  have f: "f \<noteq> []" using assms(1) by (simp add: wellShaped_def)
  obtain rest where "matchHere (f @ sp1 @ ops @ sp2 @ v) = (f, ops, v) # rest"
    using matchHere_shape [of f sp1 ops sp2 v] assms(1) ops
    by (auto simp: wellShaped_def list_all_iff)
  then show ?thesis using f by (cases f) simp_all
qed

lemma matchHere_no_op:
  assumes "\<forall>c \<in> set s. \<not> isOp c"
  shows "matchHere s = []"
proof -
  have "greedy isOp 1 r = []" if "set r \<subseteq> set s" for r
  proof -
    have "takeWhile isOp r = []"
      using that assms by (cases r) auto
    then show ?thesis by (simp add: greedy_empty)
  qed
  moreover have "set r2 \<subseteq> set s"
    if "(w, r1) \<in> set (greedy isWord 1 s)" and "(sp, r2) \<in> set (greedy isSpace 0 r1)"
    for w r1 sp r2
    using that by (auto simp: greedy_def dest: in_set_dropD)
  ultimately show ?thesis
    unfolding matchHere_def by auto
qed

lemma conditionMatch_no_op:
  "\<forall>c \<in> set s. \<not> isOp c \<Longrightarrow> conditionMatch s = None"
  by (induction s) (simp_all add: matchHere_no_op)

lemma evaluateCondition_parsed:
  "conditionMatch cond = Some (f, ops, v) \<Longrightarrow>
   evaluateCondition cond ctx =
     (getProp ctx f \<noteq> JUndefined \<and>
      (if ops = ''>'' then num_lt (threshold v) (parseFloatVal (getProp ctx f))
       else if ops = ''<'' then num_lt (parseFloatVal (getProp ctx f)) (threshold v)
       else if ops = ''>='' then num_le (threshold v) (parseFloatVal (getProp ctx f))
       else if ops = ''<='' then num_le (parseFloatVal (getProp ctx f)) (threshold v)
       else if ops = ''=='' then looseEqNum (getProp ctx f) (threshold v)
       else if ops = ''!='' then \<not> looseEqNum (getProp ctx f) (threshold v)
       else False))"
  by (simp add: evaluateCondition_def threshold_def Let_def)

lemma evaluateCondition_empty: "\<not> evaluateCondition [] ctx"
  by (simp add: evaluateCondition_def)

lemma amount_gt_500: "conditionMatch ''amount > 500'' = Some (''amount'', ''>'', ''500'')"
  by code_simp

lemma threshold_500: "threshold ''500'' = Fin 500"
  by code_simp

subsection \<open>The rule loops\<close>

lemma checkEscalation_find:
  "checkEscalation E rules action ctx =
     map_option (escalationDecision E) (find (\<lambda>r. escalationMatch r action ctx) rules)"
  by (induction E rules action ctx rule: checkEscalation.induct)
     (simp_all add: escalationMatch_def escalationDecision_def)

lemma matchesRules_find: "matchesRules action rules = find (matchesPattern action) rules"
  by (induction rules) simp_all

lemma fst_logged: "fst (logged E agentId action ctx startTime result w) = result"
  by (simp add: logged_def split_def Let_def)

lemma escalationStage_find:
  "escalationStage E pol action ctx =
     map_option (escalationDecision E)
       (find (\<lambda>r. escalationMatch r action ctx) (escalateRules pol))"
  by (simp add: escalationStage_def escalateRules_def checkEscalation_find escalationDecision_def
           split: option.splits)

lemma denyStage_find: "denyStage pol action = find (matchesPattern action) (denyRules pol)"
  by (simp add: denyStage_def denyRules_def matchesRules_find split: option.splits)

lemma allowStage_find: "allowStage pol action = find (matchesPattern action) (allowRules pol)"
  by (simp add: allowStage_def allowRules_def matchesRules_find split: option.splits)

lemma checkPermission_decision:
  "fst (checkPermission E policies agentId action ctx w) =
     (case policies agentId of
        None \<Rightarrow>
          \<lparr>allowed = False, reason = ''No policy found for agent: '' @ agentId,
           requiresEscalation = False, escalationRule = None\<rparr>
      | Some pol \<Rightarrow>
          (case find (\<lambda>r. escalationMatch r action ctx) (escalateRules pol) of
             Some r \<Rightarrow> escalationDecision E r
           | None \<Rightarrow>
               (case find (matchesPattern action) (denyRules pol) of
                  Some r \<Rightarrow>
                    \<lparr>allowed = False,
                     reason = ''Action explicitly denied by policy rule: '' @ r,
                     requiresEscalation = False, escalationRule = None\<rparr>
                | None \<Rightarrow>
                    (case find (matchesPattern action) (allowRules pol) of
                       Some r \<Rightarrow>
                         \<lparr>allowed = True,
                          reason = ''Action allowed by policy rule: '' @ r,
                          requiresEscalation = False, escalationRule = None\<rparr>
                     | None \<Rightarrow>
                         \<lparr>allowed = False,
                          reason = ''Action not explicitly allowed (default deny)'',
                          requiresEscalation = False, escalationRule = None\<rparr>))))"
  by (simp add: checkPermission_def split_def Let_def fst_logged escalationStage_find
        denyStage_find allowStage_find split: option.splits)

text \<open>
  C1. \<open>checkPermission\<close> returns what the five-stage algorithm of the specification
  returns: no policy for the agent gives a denial without escalation; otherwise the
  first escalation rule that matches, in declaration order, gives
  \<open>allowed: false, requiresEscalation: true\<close> with that rule as \<open>escalationRule\<close>;
  else the first matching deny rule gives a denial; else the first matching allow rule
  gives \<open>allowed: true\<close>; else the default is a denial. So a matching escalation rule
  wins whatever the deny and allow lists hold, and a matching deny rule wins over the
  allow list.
\<close>

theorem checkPermission_five_stages:
  "(let d = fst (checkPermission E policies agentId action ctx w)
    in (allowed d, requiresEscalation d, escalationRule d)
         = specEvaluate policies agentId action ctx
       \<and> (policies agentId = None \<longrightarrow> \<not> allowed d \<and> \<not> requiresEscalation d)
       \<and> (\<forall>pol. policies agentId = Some pol
              \<and> (\<exists>r \<in> set (escalateRules pol). escalationMatch r action ctx)
            \<longrightarrow> \<not> allowed d \<and> requiresEscalation d
                \<and> escalationRule d = find (\<lambda>r. escalationMatch r action ctx) (escalateRules pol))
       \<and> (\<forall>pol. policies agentId = Some pol
              \<and> (\<forall>r \<in> set (escalateRules pol). \<not> escalationMatch r action ctx)
              \<and> (\<exists>r \<in> set (denyRules pol). matchesPattern action r)
            \<longrightarrow> \<not> allowed d \<and> \<not> requiresEscalation d)
       \<and> (\<forall>pol. policies agentId = Some pol
              \<and> (\<forall>r \<in> set (escalateRules pol). \<not> escalationMatch r action ctx)
              \<and> (\<forall>r \<in> set (denyRules pol). \<not> matchesPattern action r)
            \<longrightarrow> allowed d = (\<exists>r \<in> set (allowRules pol). matchesPattern action r)
                \<and> \<not> requiresEscalation d))"
proof -
  define d where "d = fst (checkPermission E policies agentId action ctx w)"
  have spec: "(allowed d, requiresEscalation d, escalationRule d)
                = specEvaluate policies agentId action ctx"
    unfolding d_def checkPermission_decision specEvaluate_def
    by (simp add: escalationDecision_def split: option.splits)
  have none: "\<not> allowed d \<and> \<not> requiresEscalation d" if "policies agentId = None"
    using spec that by (simp add: specEvaluate_def)
  have esc: "\<not> allowed d \<and> requiresEscalation d
             \<and> escalationRule d = find (\<lambda>r. escalationMatch r action ctx) (escalateRules pol)"
    if h1: "policies agentId = Some pol"
      and h2: "\<exists>r \<in> set (escalateRules pol). escalationMatch r action ctx"
    for pol
  proof -
    obtain r where "find (\<lambda>r. escalationMatch r action ctx) (escalateRules pol) = Some r"
      using h2 by (cases "find (\<lambda>r. escalationMatch r action ctx) (escalateRules pol)")
                       (auto simp: find_None_iff)
    then show ?thesis using spec h1 by (simp add: specEvaluate_def)
  qed
  have den: "\<not> allowed d \<and> \<not> requiresEscalation d"
    if h1: "policies agentId = Some pol"
      and h2: "\<forall>r \<in> set (escalateRules pol). \<not> escalationMatch r action ctx"
      and h3: "\<exists>r \<in> set (denyRules pol). matchesPattern action r"
    for pol
  proof -
    have "find (\<lambda>r. escalationMatch r action ctx) (escalateRules pol) = None"
      using h2 by (simp add: find_None_iff)
    moreover obtain r where "find (matchesPattern action) (denyRules pol) = Some r"
      using h3 by (cases "find (matchesPattern action) (denyRules pol)")
                       (auto simp: find_None_iff)
    ultimately show ?thesis using spec h1 by (simp add: specEvaluate_def)
  qed
  have alw: "allowed d = (\<exists>r \<in> set (allowRules pol). matchesPattern action r)
             \<and> \<not> requiresEscalation d"
    if h1: "policies agentId = Some pol"
      and h2: "\<forall>r \<in> set (escalateRules pol). \<not> escalationMatch r action ctx"
      and h3: "\<forall>r \<in> set (denyRules pol). \<not> matchesPattern action r"
    for pol
  proof -
    have e: "find (\<lambda>r. escalationMatch r action ctx) (escalateRules pol) = None"
      using h2 by (simp add: find_None_iff)
    have dn: "find (matchesPattern action) (denyRules pol) = None"
      using h3 by (simp add: find_None_iff)
    show ?thesis
    proof (cases "find (matchesPattern action) (allowRules pol)")
      case None
      then have "\<not> (\<exists>r \<in> set (allowRules pol). matchesPattern action r)"
        by (simp add: find_None_iff)
      moreover have "\<not> allowed d \<and> \<not> requiresEscalation d"
        using spec h1 e dn None by (simp add: specEvaluate_def)
      ultimately show ?thesis by simp
    next
      case (Some r)
      then have "\<exists>r \<in> set (allowRules pol). matchesPattern action r"
        by (auto simp: find_Some_iff)
      moreover have "allowed d \<and> \<not> requiresEscalation d"
        using spec h1 e dn Some by (simp add: specEvaluate_def)
      ultimately show ?thesis by simp
    qed
  qed
  show ?thesis
    unfolding Let_def d_def [symmetric] using spec none esc den alw by blast
qed

lemma ev700: "evaluateCondition ''amount > 500'' [''amount'' \<mapsto> JNum (Fin 700)]"
  by code_simp

text \<open>
  The theorem at a concrete policy: a refund of 700 is escalated although the deny and
  the allow list both name \<open>refund\<close>, and \<open>delete:x\<close> is denied.
\<close>

theorem checkPermission_five_stages_witness:
  "requiresEscalation
     (fst (checkPermission demoEnv demoPolicies ''support'' ''refund''
             [''amount'' \<mapsto> JNum (Fin 700)] freshWorld))
   \<and> \<not> allowed
     (fst (checkPermission demoEnv demoPolicies ''support'' ''delete:x'' Map.empty freshWorld))"
proof -
  have p: "demoPolicies ''support'' = Some (the (demoPolicies ''support''))"
    by (simp add: demoPolicies_def)
  have e: "\<exists>r \<in> set (escalateRules (the (demoPolicies ''support''))).
             escalationMatch r ''refund'' [''amount'' \<mapsto> JNum (Fin 700)]"
    using ev700
    by (simp add: demoPolicies_def escalateRules_def escalationMatch_def matchesPattern_def)
  have n: "\<forall>r \<in> set (escalateRules (the (demoPolicies ''support''))).
             \<not> escalationMatch r ''delete:x'' Map.empty"
    by (simp add: demoPolicies_def escalateRules_def escalationMatch_def matchesPattern_def
          endsWith_def)
  have d: "\<exists>r \<in> set (denyRules (the (demoPolicies ''support''))). matchesPattern ''delete:x'' r"
    by (simp add: demoPolicies_def denyRules_def matchesPattern_def endsWith_def)
  note esc = checkPermission_five_stages
                [of demoEnv demoPolicies "''support''" "''refund''"
                    "[''amount'' \<mapsto> JNum (Fin 700)]" freshWorld, unfolded Let_def,
                 THEN conjunct2, THEN conjunct2, THEN conjunct1, rule_format,
                 OF conjI [OF p e]]
  note den = checkPermission_five_stages
                [of demoEnv demoPolicies "''support''" "''delete:x''" Map.empty freshWorld,
                 unfolded Let_def,
                 THEN conjunct2, THEN conjunct2, THEN conjunct2, THEN conjunct1, rule_format,
                 OF conjI [OF p conjI [OF n d]]]
  from esc den show ?thesis by (intro conjI) (elim conjE, assumption)+
qed

subsection \<open>Conditional rules\<close>

lemma matchesConditional_iff:
  "matchesConditional (ObjectRule a c) action ctx \<longleftrightarrow>
     (a = None \<or> a = Some [] \<or> (\<exists>p. a = Some p \<and> matchesPattern action p))
     \<and> (\<exists>cond. c = Some cond \<and> evaluateCondition cond ctx)"
  by (cases a; cases c) (auto simp: evaluateCondition_empty)

lemma ev300: "\<not> evaluateCondition ''amount > 500'' [''amount'' \<mapsto> JNum (Fin 300)]"
  by code_simp

lemma threshold_dollars: "threshold ''$1,500'' = Fin 1500"
  by code_simp

lemma single_rule_escalates:
  assumes "policies agentId = Some pol" and "escalateRules pol = [r]"
  shows "requiresEscalation (fst (checkPermission E policies agentId action ctx w))
           = escalationMatch r action ctx"
  using assms
  by (simp add: checkPermission_decision escalationDecision_def split: option.splits)

text \<open>
  C6, as amended. An object rule triggers escalation exactly when its action pattern,
  if it has a non-empty one, matches the action (a rule with no action or an empty one
  applies to every action) and it has a condition that evaluates to true. A condition
  of the shape \<open><field> <op> <value>\<close> with one of the six operators compares the
  context's value of the field with the value of the condition, from which every \<open>$\<close>
  and \<open>,\<close> is removed before \<open>parseFloat\<close>; it is false when the field reads as
  \<open>undefined\<close>, as it does when the context has no such property and \<open>Object.prototype\<close>
  has none either. With the rule \<open>{action: "refund", condition: "amount > 500"}\<close> as the
  only escalation rule, an amount of 300 does not escalate and the deny and allow stages
  decide, and an amount of 700 escalates.
\<close>

theorem conditional_rule_escalation:
  "(matchesConditional (ObjectRule a c) action ctx \<longleftrightarrow>
      (a = None \<or> a = Some [] \<or> (\<exists>p. a = Some p \<and> matchesPattern action p))
      \<and> (\<exists>cond. c = Some cond \<and> evaluateCondition cond ctx))
   \<and> (wellShaped f sp1 sp2 v \<and> ops \<in> set operators \<longrightarrow>
        evaluateCondition (f @ sp1 @ ops @ sp2 @ v) ctx =
          (getProp ctx f \<noteq> JUndefined \<and>
           (if ops = ''>'' then num_lt (threshold v) (parseFloatVal (getProp ctx f))
            else if ops = ''<'' then num_lt (parseFloatVal (getProp ctx f)) (threshold v)
            else if ops = ''>='' then num_le (threshold v) (parseFloatVal (getProp ctx f))
            else if ops = ''<='' then num_le (parseFloatVal (getProp ctx f)) (threshold v)
            else if ops = ''=='' then looseEqNum (getProp ctx f) (threshold v)
            else \<not> looseEqNum (getProp ctx f) (threshold v))))
   \<and> (ctx f = None \<and> objectPrototype f = JUndefined \<longrightarrow> getProp ctx f = JUndefined)
   \<and> threshold ''$1,500'' = Fin 1500
   \<and> (policies agentId = Some pol
        \<and> escalateRules pol = [ObjectRule (Some ''refund'') (Some ''amount > 500'')] \<longrightarrow>
        (let d300 = fst (checkPermission E policies agentId ''refund''
                           [''amount'' \<mapsto> JNum (Fin 300)] w);
             d700 = fst (checkPermission E policies agentId ''refund''
                           [''amount'' \<mapsto> JNum (Fin 700)] w)
         in \<not> requiresEscalation d300
            \<and> allowed d300 = ((\<forall>r \<in> set (denyRules pol). \<not> matchesPattern ''refund'' r)
                               \<and> (\<exists>r \<in> set (allowRules pol). matchesPattern ''refund'' r))
            \<and> requiresEscalation d700 \<and> \<not> allowed d700
            \<and> escalationRule d700
                = Some (ObjectRule (Some ''refund'') (Some ''amount > 500''))))"
proof -
  have shape: "evaluateCondition (f @ sp1 @ ops @ sp2 @ v) ctx =
          (getProp ctx f \<noteq> JUndefined \<and>
           (if ops = ''>'' then num_lt (threshold v) (parseFloatVal (getProp ctx f))
            else if ops = ''<'' then num_lt (parseFloatVal (getProp ctx f)) (threshold v)
            else if ops = ''>='' then num_le (threshold v) (parseFloatVal (getProp ctx f))
            else if ops = ''<='' then num_le (parseFloatVal (getProp ctx f)) (threshold v)
            else if ops = ''=='' then looseEqNum (getProp ctx f) (threshold v)
            else \<not> looseEqNum (getProp ctx f) (threshold v)))"
    if ws: "wellShaped f sp1 sp2 v" and op: "ops \<in> set operators"
  proof -
    have "conditionMatch (f @ sp1 @ ops @ sp2 @ v) = Some (f, ops, v)"
      using ws op by (rule conditionMatch_shape)
    then show ?thesis
      using op by (auto simp: evaluateCondition_parsed operators_def)
  qed
  have absent: "getProp ctx f = JUndefined" if "ctx f = None" and "objectPrototype f = JUndefined"
    using that by (simp add: getProp_def)
  let ?R = "ObjectRule (Some ''refund'') (Some ''amount > 500'')"
  have m300: "\<not> escalationMatch ?R ''refund'' [''amount'' \<mapsto> JNum (Fin 300)]"
    using ev300 by (simp add: escalationMatch_def)
  have m700: "escalationMatch ?R ''refund'' [''amount'' \<mapsto> JNum (Fin 700)]"
    using ev700 by (simp add: escalationMatch_def matchesPattern_def)
  have inst: "(let d300 = fst (checkPermission E policies agentId ''refund''
                           [''amount'' \<mapsto> JNum (Fin 300)] w);
             d700 = fst (checkPermission E policies agentId ''refund''
                           [''amount'' \<mapsto> JNum (Fin 700)] w)
         in \<not> requiresEscalation d300
            \<and> allowed d300 = ((\<forall>r \<in> set (denyRules pol). \<not> matchesPattern ''refund'' r)
                               \<and> (\<exists>r \<in> set (allowRules pol). matchesPattern ''refund'' r))
            \<and> requiresEscalation d700 \<and> \<not> allowed d700
            \<and> escalationRule d700 = Some ?R)"
    if pol: "policies agentId = Some pol" and r: "escalateRules pol = [?R]"
  proof -
    have a: "fst (checkPermission E policies agentId ''refund''
                    [''amount'' \<mapsto> JNum (Fin 700)] w) = escalationDecision E ?R"
      using pol r m700 by (simp add: checkPermission_decision)
    have b: "\<not> requiresEscalation (fst (checkPermission E policies agentId ''refund''
                    [''amount'' \<mapsto> JNum (Fin 300)] w))"
      using pol r m300 by (simp add: single_rule_escalates)
    have c: "allowed (fst (checkPermission E policies agentId ''refund''
                    [''amount'' \<mapsto> JNum (Fin 300)] w))
               = ((\<forall>r \<in> set (denyRules pol). \<not> matchesPattern ''refund'' r)
                  \<and> (\<exists>r \<in> set (allowRules pol). matchesPattern ''refund'' r))"
    proof (cases "find (matchesPattern ''refund'') (denyRules pol)")
      case None
      note dn = this
      have nd: "\<forall>r \<in> set (denyRules pol). \<not> matchesPattern ''refund'' r"
        using dn by (simp add: find_None_iff)
      show ?thesis
      proof (cases "find (matchesPattern ''refund'') (allowRules pol)")
        case None
        then have "\<not> (\<exists>r \<in> set (allowRules pol). matchesPattern ''refund'' r)"
          by (simp add: find_None_iff)
        moreover have "\<not> allowed (fst (checkPermission E policies agentId ''refund''
                    [''amount'' \<mapsto> JNum (Fin 300)] w))"
          using pol r m300 dn None by (simp add: checkPermission_decision)
        ultimately show ?thesis by simp
      next
        case (Some x)
        then have "\<exists>r \<in> set (allowRules pol). matchesPattern ''refund'' r"
          by (auto simp: find_Some_iff)
        moreover have "allowed (fst (checkPermission E policies agentId ''refund''
                    [''amount'' \<mapsto> JNum (Fin 300)] w))"
          using pol r m300 dn Some by (simp add: checkPermission_decision)
        ultimately show ?thesis using nd by simp
      qed
    next
      case (Some x)
      then have "\<exists>r \<in> set (denyRules pol). matchesPattern ''refund'' r"
        by (auto simp: find_Some_iff)
      moreover have "\<not> allowed (fst (checkPermission E policies agentId ''refund''
                    [''amount'' \<mapsto> JNum (Fin 300)] w))"
        using pol r m300 Some by (simp add: checkPermission_decision)
      ultimately show ?thesis by simp
    qed
    show ?thesis
      unfolding Let_def using a b c by (simp add: escalationDecision_def)
  qed
  show ?thesis
    using matchesConditional_iff [of a c action ctx] shape absent threshold_dollars inst
    by blast
qed

lemma pf1500: "parseFloatVal (JStr ''1500'') = Fin 1500"
  by code_simp

text \<open>
  The theorem at the condition \<open>amount >= $1,500\<close>: true for a context whose amount is
  the string \<open>1500\<close>, false for a context with no amount.
\<close>

theorem conditional_rule_escalation_witness:
  "evaluateCondition ''amount >= $1,500'' [''amount'' \<mapsto> JStr ''1500'']
   \<and> \<not> evaluateCondition ''amount >= $1,500'' Map.empty"
proof -
  have ws: "wellShaped ''amount'' '' '' '' '' ''$1,500'' \<and> ''>='' \<in> set operators"
    by (simp add: wellShaped_def operators_def isWord_def isSpace_def isOp_def
          isLineTerminator_def)
  note T1 = conditional_rule_escalation
              [where f = "''amount''" and ?sp1.0 = "'' ''" and ?sp2.0 = "'' ''"
                 and v = "''$1,500''" and ops = "''>=''"
                 and ctx = "[''amount'' \<mapsto> JStr ''1500'']",
               THEN conjunct2, THEN conjunct1, rule_format, OF ws]
  note T2 = conditional_rule_escalation
              [where f = "''amount''" and ?sp1.0 = "'' ''" and ?sp2.0 = "'' ''"
                 and v = "''$1,500''" and ops = "''>=''" and ctx = Map.empty,
               THEN conjunct2, THEN conjunct1, rule_format, OF ws]
  have "evaluateCondition ''amount >= $1,500'' [''amount'' \<mapsto> JStr ''1500'']"
    using T1 by (simp add: getProp_def threshold_dollars pf1500 num_le_def)
  moreover have "\<not> evaluateCondition ''amount >= $1,500'' Map.empty"
    using T2 by (simp add: getProp_def objectPrototype_def)
  ultimately show ?thesis by simp
qed

lemma ev_constructor: "evaluateCondition ''constructor != 5'' Map.empty"
  by code_simp

text \<open>
  C6 as stated fails in two places. The rule \<open>{action: "", condition: "amount > 500"}\<close>
  escalates the action \<open>delete:x\<close>, which its pattern does not match: an empty action is
  skipped by the guard \<open>rule.action &&\<close>. And for the context \<open>{}\<close>, which has no
  \<open>constructor\<close> property of its own, the condition \<open>constructor != 5\<close> is true: the
  read finds \<open>Object.prototype.constructor\<close>.
\<close>

theorem conditional_rule_counterexample:
  "matchesConditional (ObjectRule (Some '''') (Some ''amount > 500'')) ''delete:x''
     [''amount'' \<mapsto> JNum (Fin 700)]
   \<and> \<not> matchesPattern ''delete:x'' ''''
   \<and> evaluateCondition ''constructor != 5'' Map.empty
   \<and> (Map.empty :: jsobject) ''constructor'' = None"
  using ev700 ev_constructor by (simp add: matchesPattern_def endsWith_def)

subsection \<open>Conditions that are not understood\<close>

text \<open>
  C10. A condition that the parser does not match evaluates to false, as does one whose
  operator text is none of the six (a string without any of the characters
  \<open>> < = !\<close> is never matched); an object rule with such a condition, or with no
  condition at all, does not match and \<open>checkEscalation\<close> finds nothing in it, whatever
  its action pattern and the action are.
\<close>

theorem condition_fail_closed:
  "(conditionMatch cond = None \<longrightarrow> \<not> evaluateCondition cond ctx)
   \<and> (list_all (\<lambda>ch. \<not> isOp ch) cond \<longrightarrow> conditionMatch cond = None)
   \<and> (conditionMatch cond = Some (f, ops, v) \<and> ops \<notin> set operators
        \<longrightarrow> \<not> evaluateCondition cond ctx)
   \<and> (\<not> evaluateCondition cond ctx \<longrightarrow>
        \<not> matchesConditional (ObjectRule a (Some cond)) action ctx
        \<and> \<not> escalationMatch (ObjectRule a (Some cond)) action ctx
        \<and> checkEscalation E [ObjectRule a (Some cond)] action ctx = None)
   \<and> \<not> matchesConditional (ObjectRule a None) action ctx
   \<and> \<not> escalationMatch (ObjectRule a None) action ctx
   \<and> checkEscalation E [ObjectRule a None] action ctx = None"
proof -
  have 1: "\<not> evaluateCondition cond ctx" if "conditionMatch cond = None"
    using that by (simp add: evaluateCondition_def)
  have 2: "conditionMatch cond = None" if "list_all (\<lambda>ch. \<not> isOp ch) cond"
    using that by (simp add: conditionMatch_no_op list_all_iff)
  have 3: "\<not> evaluateCondition cond ctx"
    if "conditionMatch cond = Some (f, ops, v)" and "ops \<notin> set operators"
    using that by (simp add: evaluateCondition_parsed operators_def)
  have 4: "\<not> matchesConditional (ObjectRule a (Some cond)) action ctx
        \<and> \<not> escalationMatch (ObjectRule a (Some cond)) action ctx
        \<and> checkEscalation E [ObjectRule a (Some cond)] action ctx = None"
    if "\<not> evaluateCondition cond ctx"
    using that by (simp add: matchesConditional_iff escalationMatch_def)
  have 5: "\<not> matchesConditional (ObjectRule a None) action ctx"
    by (simp add: matchesConditional_iff)
  then have 6: "\<not> escalationMatch (ObjectRule a None) action ctx"
    by (simp add: escalationMatch_def)
  have 7: "checkEscalation E [ObjectRule a None] action ctx = None"
    using 5 by simp
  show ?thesis using 1 2 3 4 5 6 7 by blast
qed

lemma bad_operator: "conditionMatch ''amount => 500'' = Some (''amount'', ''=>'', ''500'')"
  by code_simp

text \<open>
  The theorem at the condition \<open>amount => 500\<close>, whose operator is none of the six, and
  at \<open>vip customer\<close>, which has no operator: neither escalates a matching action.
\<close>

theorem condition_fail_closed_witness:
  "\<not> matchesConditional (ObjectRule (Some ''refund'') (Some ''amount => 500'')) ''refund''
       [''amount'' \<mapsto> JNum (Fin 700)]
   \<and> \<not> matchesConditional (ObjectRule (Some ''refund'') (Some ''vip customer'')) ''refund''
       [''vip'' \<mapsto> JBool True]"
proof -
  have op: "conditionMatch ''amount => 500'' = Some (''amount'', ''=>'', ''500'')
            \<and> ''=>'' \<notin> set operators"
    using bad_operator by (simp add: operators_def)
  have no: "list_all (\<lambda>ch. \<not> isOp ch) ''vip customer''"
    by (simp add: isOp_def)
  note A = condition_fail_closed
             [where cond = "''amount => 500''" and f = "''amount''" and ops = "''=>''"
                and v = "''500''" and ctx = "[''amount'' \<mapsto> JNum (Fin 700)]"
                and a = "Some ''refund''" and action = "''refund''" and E = demoEnv]
  note B = condition_fail_closed
             [where cond = "''vip customer''" and ctx = "[''vip'' \<mapsto> JBool True]"
                and a = "Some ''refund''" and action = "''refund''" and E = demoEnv]
  have "\<not> evaluateCondition ''amount => 500'' [''amount'' \<mapsto> JNum (Fin 700)]"
    using A [THEN conjunct2, THEN conjunct2, THEN conjunct1, rule_format, OF op] .
  then have a: "\<not> matchesConditional (ObjectRule (Some ''refund'') (Some ''amount => 500''))
                   ''refund'' [''amount'' \<mapsto> JNum (Fin 700)]"
    using A [THEN conjunct2, THEN conjunct2, THEN conjunct2, THEN conjunct1, rule_format]
    by blast
  have "conditionMatch ''vip customer'' = None"
    using B [THEN conjunct2, THEN conjunct1, rule_format, OF no] .
  then have "\<not> evaluateCondition ''vip customer'' [''vip'' \<mapsto> JBool True]"
    using B [THEN conjunct1, rule_format] by simp
  then have b: "\<not> matchesConditional (ObjectRule (Some ''refund'') (Some ''vip customer''))
                   ''refund'' [''vip'' \<mapsto> JBool True]"
    using B [THEN conjunct2, THEN conjunct2, THEN conjunct2, THEN conjunct1, rule_format]
    by blast
  from a b show ?thesis by simp
qed

subsection \<open>Redaction\<close>

lemma redact_foldl:
  "distinct fs \<Longrightarrow>
   foldl (\<lambda>sanitized field.
            if truthy (getProp sanitized field)
            then sanitized(field \<mapsto> JStr ''[REDACTED]'') else sanitized) m fs k
   = (if k \<in> set fs \<and> truthy (getProp m k) then Some (JStr ''[REDACTED]'') else m k)"
proof (induction fs arbitrary: m)
  case Nil
  then show ?case by simp
next
  case (Cons f fs)
  have other: "getProp (m(f \<mapsto> v)) k = getProp m k" if "k \<noteq> f" for v
    using that by (simp add: getProp_def)
  show ?case
  proof (cases "k = f")
    case True
    with Cons show ?thesis by (simp add: getProp_def)
  next
    case False
    with Cons show ?thesis by (auto simp: other)
  qed
qed

lemma sanitizeContext_apply:
  "sanitizeContext ctx k =
     (if k \<in> set sensitiveFields \<and> truthy (getProp ctx k)
      then Some (JStr ''[REDACTED]'') else ctx k)"
  unfolding sanitizeContext_def
  by (rule redact_foldl) (simp add: sensitiveFields_def)

lemma getProp_sensitive:
  "k \<in> set sensitiveFields \<Longrightarrow>
   truthy (getProp ctx k) = (\<exists>v. ctx k = Some v \<and> truthy v)"
  by (auto simp: getProp_def objectPrototype_def sensitiveFields_def truthy_def
           split: option.splits)

lemma lastEntry_logDecision:
  "\<exists>e. lastEntry (logDecision E agentId action ctx d ms w) = Some e
       \<and> e_type e = ''policy_decision''
       \<and> e_body e = DecisionBody (sanitizeContext ctx) ms"
  by (simp add: logDecision_def split_def Let_def writeEntry_def lastEntry_def)

lemma lastEntry_logAction:
  "\<exists>e. lastEntry (logAction E agentId action details (ok, out, err) w) = Some e
       \<and> e_type e = ''agent_action''
       \<and> e_body e = ActionBody (sanitizeContext details) ok out err"
  by (simp add: logAction_def split_def Let_def writeEntry_def lastEntry_def)

lemma lastEntry_logEscalation:
  "\<exists>e. lastEntry (snd (logEscalation E agentId action ctx why whom w)) = Some e
       \<and> e_type e = ''escalation''
       \<and> e_body e = EscalationBody (sanitizeContext ctx) why whom ''pending''"
  by (simp add: logEscalation_def split_def Let_def writeEntry_def lastEntry_def)

text \<open>
  C9, as amended. \<open>sanitizeContext\<close> replaces by \<open>[REDACTED]\<close> the value of every
  property named \<open>password\<close>, \<open>token\<close>, \<open>secret\<close>, \<open>apiKey\<close>, \<open>ssn\<close> or \<open>creditCard\<close>
  whose value is truthy, and leaves every other property as it is, also one of these six
  whose value is falsy; \<open>logDecision\<close>, \<open>logAction\<close> and \<open>logEscalation\<close> write the
  sanitized payload into the entry they append.
\<close>

theorem sanitizeContext_redacts:
  "sanitizeContext ctx k =
     (if k \<in> {''password'', ''token'', ''secret'', ''apiKey'', ''ssn'', ''creditCard''}
         \<and> (\<exists>v. ctx k = Some v \<and> truthy v)
      then Some (JStr ''[REDACTED]'') else ctx k)
   \<and> (\<exists>e. lastEntry (logDecision E agentId action ctx d ms w) = Some e
          \<and> e_body e = DecisionBody (sanitizeContext ctx) ms)
   \<and> (\<exists>e. lastEntry (logAction E agentId action ctx (ok, out, err) w) = Some e
          \<and> e_body e = ActionBody (sanitizeContext ctx) ok out err)
   \<and> (\<exists>e. lastEntry (snd (logEscalation E agentId action ctx why whom w)) = Some e
          \<and> e_body e = EscalationBody (sanitizeContext ctx) why whom ''pending'')"
proof -
  have s: "set sensitiveFields
             = {''password'', ''token'', ''secret'', ''apiKey'', ''ssn'', ''creditCard''}"
    by (simp add: sensitiveFields_def)
  have "sanitizeContext ctx k =
     (if k \<in> set sensitiveFields \<and> (\<exists>v. ctx k = Some v \<and> truthy v)
      then Some (JStr ''[REDACTED]'') else ctx k)"
    using getProp_sensitive [of k ctx] by (auto simp: sanitizeContext_apply)
  then have 1: "sanitizeContext ctx k =
     (if k \<in> {''password'', ''token'', ''secret'', ''apiKey'', ''ssn'', ''creditCard''}
         \<and> (\<exists>v. ctx k = Some v \<and> truthy v)
      then Some (JStr ''[REDACTED]'') else ctx k)"
    unfolding s .
  show ?thesis
    using 1 lastEntry_logDecision [of E agentId action ctx d ms w]
      lastEntry_logAction [of E agentId action ctx ok out err w]
      lastEntry_logEscalation [of E agentId action ctx why whom w]
    by blast
qed

text \<open>
  The theorem at a context with a password, a user and an empty token: the password is
  redacted, the user and the token are not.
\<close>

theorem sanitizeContext_redacts_witness:
  "(let ctx = [''password'' \<mapsto> JStr ''hunter2'', ''user'' \<mapsto> JStr ''ann'',
               ''token'' \<mapsto> JStr '''']
    in sanitizeContext ctx ''password'' = Some (JStr ''[REDACTED]'')
       \<and> sanitizeContext ctx ''user'' = Some (JStr ''ann'')
       \<and> sanitizeContext ctx ''token'' = Some (JStr ''''))"
  using sanitizeContext_redacts
          [where ctx = "[''password'' \<mapsto> JStr ''hunter2'', ''user'' \<mapsto> JStr ''ann'',
                         ''token'' \<mapsto> JStr '''']" and k = "''password''",
           THEN conjunct1]
        sanitizeContext_redacts
          [where ctx = "[''password'' \<mapsto> JStr ''hunter2'', ''user'' \<mapsto> JStr ''ann'',
                         ''token'' \<mapsto> JStr '''']" and k = "''user''",
           THEN conjunct1]
        sanitizeContext_redacts
          [where ctx = "[''password'' \<mapsto> JStr ''hunter2'', ''user'' \<mapsto> JStr ''ann'',
                         ''token'' \<mapsto> JStr '''']" and k = "''token''",
           THEN conjunct1]
  by (simp add: truthy_def)

text \<open>
  C9 as stated fails for a sensitive key whose value is falsy: the guard
  \<open>if (sanitized[field])\<close> skips it. An \<open>ssn\<close> of 0 and a \<open>token\<close> of \<open>false\<close> are
  logged as they are.
\<close>

theorem sanitizeContext_counterexample:
  "sanitizeContext [''ssn'' \<mapsto> JNum (Fin 0), ''token'' \<mapsto> JBool False] ''ssn''
     = Some (JNum (Fin 0))
   \<and> sanitizeContext [''ssn'' \<mapsto> JNum (Fin 0), ''token'' \<mapsto> JBool False] ''token''
     = Some (JBool False)"
  by (simp add: sanitizeContext_def sensitiveFields_def getProp_def truthy_def)

subsection \<open>The hash chain\<close>

lemma verifyLines_count:
  "verifyLines E ls i prev n = Valid m \<Longrightarrow> m = n + length ls"
  by (induction E ls i prev n rule: verifyLines.induct) (auto split: if_splits)

lemma verifyLines_append:
  "verifyLines E xs i prev n = Valid m \<Longrightarrow>
   verifyLines E (xs @ ys) i prev n
     = verifyLines E ys (i + length xs) (if xs = [] then prev else hashOf (last xs)) m"
  by (induction E xs i prev n rule: verifyLines.induct)
     (auto simp: hashOf_def split: if_splits)

lemma verifyLines_nth:
  "verifyLines E ls i prev n = Valid m \<Longrightarrow> j < length ls \<Longrightarrow>
   \<exists>e. ls ! j = Entry e \<and> e_hash e = HStr (hashEntry E e)
       \<and> e_previousHash e = (if j = 0 then prev else hashOf (ls ! (j - 1)))"
proof (induction ls arbitrary: i prev n j)
  case Nil
  then show ?case by simp
next
  case (Cons l ls)
  from Cons.prems(1) obtain e where l: "l = Entry e"
    by (cases l) simp_all
  from Cons.prems(1) l
  have ok: "e_previousHash e = prev" "e_hash e = HStr (hashEntry E e)"
    and rest: "verifyLines E ls (i + 1) (e_hash e) (n + 1) = Valid m"
    by (auto split: if_splits)
  show ?case
  proof (cases j)
    case 0
    then show ?thesis using ok l by simp
  next
    case (Suc k)
    then have "k < length ls" using Cons.prems(2) by simp
    from Cons.IH [OF rest this]
    obtain e' where "ls ! k = Entry e'" "e_hash e' = HStr (hashEntry E e')"
      "e_previousHash e' = (if k = 0 then e_hash e else hashOf (ls ! (k - 1)))"
      by auto
    then show ?thesis using Suc l by (cases k) (auto simp: hashOf_def)
  qed
qed

lemma verifyLines_entries:
  "verifyLines E ls i prev n = Valid m \<Longrightarrow> list_all (\<lambda>l. \<not> blank l) ls"
  by (induction E ls i prev n rule: verifyLines.induct)
     (auto simp: blank_def split: if_splits)

text \<open>Trimming and filtering leave a file without blank lines as it is.\<close>

lemma dropWhile_hd: "xs \<noteq> [] \<Longrightarrow> \<not> P (hd xs) \<Longrightarrow> dropWhile P xs = xs"
  by (cases xs) simp_all

lemma trimSplit_framed:
  assumes "ls \<noteq> []" and "\<not> blank (hd ls)" and "\<not> blank (last ls)"
  shows "trimSplit ls = ls"
proof -
  from assms(1,2) have a: "dropWhile blank ls = ls"
    by (rule dropWhile_hd)
  have "dropWhile blank (rev ls) = rev ls"
    using assms(1,3) by (intro dropWhile_hd) (simp_all add: hd_rev)
  with a assms(1) show ?thesis
    by (simp add: trimSplit_def)
qed

lemma nonEmptyLines_framed:
  assumes "ls \<noteq> []" and "\<not> blank (hd ls)" and "\<not> blank (last ls)" and "Empty \<notin> set ls"
  shows "nonEmptyLines ls = ls"
proof -
  have "filter (\<lambda>l. l \<noteq> Empty) ls = ls"
    using assms(4) by (induction ls) auto
  then show ?thesis
    using trimSplit_framed [OF assms(1-3)] by (simp add: nonEmptyLines_def)
qed

lemma nonEmptyLines_id:
  assumes "list_all (\<lambda>l. \<not> blank l) ls"
  shows "nonEmptyLines ls = ls"
proof (cases "ls = []")
  case True
  then show ?thesis by (simp add: nonEmptyLines_def trimSplit_def)
next
  case False
  then have "hd ls \<in> set ls" and "last ls \<in> set ls"
    by simp_all
  with assms have "\<not> blank (hd ls)" and "\<not> blank (last ls)"
    by (auto simp: list_all_iff)
  moreover have "Empty \<notin> set ls"
    using assms by (auto simp: list_all_iff blank_def)
  ultimately show ?thesis
    using False by (intro nonEmptyLines_framed)
qed

text \<open>A blank line at the end of such a file is trimmed away.\<close>

lemma nonEmptyLines_blank_end:
  assumes "list_all (\<lambda>l. \<not> blank l) ls" and "blank b"
  shows "nonEmptyLines (ls @ [b]) = ls"
proof (cases "ls = []")
  case True
  then show ?thesis using assms(2) by (simp add: nonEmptyLines_def trimSplit_def)
next
  case False
  then have "hd ls \<in> set ls" and "last ls \<in> set ls"
    by simp_all
  with assms(1) have h: "\<not> blank (hd ls)" and l: "\<not> blank (last ls)"
    by (auto simp: list_all_iff)
  from False h have a: "dropWhile blank (ls @ [b]) = ls @ [b]"
    by (cases ls) simp_all
  have "dropWhile blank (rev ls) = rev ls"
    using False l by (intro dropWhile_hd) (simp_all add: hd_rev)
  with a assms(2) False have "trimSplit (ls @ [b]) = ls"
    by (simp add: trimSplit_def)
  moreover have "filter (\<lambda>l. l \<noteq> Empty) ls = ls"
    using assms(1) by (induction ls) (auto simp: blank_def)
  ultimately show ?thesis
    by (simp add: nonEmptyLines_def)
qed

lemma verifyChain_lines:
  "list_all (\<lambda>l. \<not> blank l) ls \<Longrightarrow> verifyChain E (Some ls) = verifyLines E ls 0 HNull 0"
  by (simp add: verifyChain_def nonEmptyLines_id)

lemma hashEntry_ignores_hash [simp]: "hashEntry E (e\<lparr>e_hash := h\<rparr>) = hashEntry E e"
  by (simp add: hashEntry_def)

lemma writeEntry_chainState:
  assumes "chainState E w" and "\<not> shouldRotate E w"
  shows "chainState E (writeEntry E Returns e w)"
    and "currentLog (writeEntry E Returns e w) =
           Some (logLines w @
                   [Entry (e\<lparr>e_previousHash := lastHash w,
                             e_hash := HStr (hashEntry E (e\<lparr>e_previousHash := lastHash w\<rparr>))\<rparr>)])"
proof -
  let ?e' = "e\<lparr>e_previousHash := lastHash w,
               e_hash := HStr (hashEntry E (e\<lparr>e_previousHash := lastHash w\<rparr>))\<rparr>"
  have en: "enableChainValidation w"
    and v: "verifyLines E (logLines w) 0 HNull 0 = Valid (length (logLines w))"
    and lh: "lastHash w = endHash (logLines w)"
    using assms(1) by (simp_all add: chainState_def)
  show cur: "currentLog (writeEntry E Returns e w) = Some (logLines w @ [Entry ?e'])"
    using en assms(2) by (simp add: writeEntry_def Let_def logLines_def)
  have lines: "logLines (writeEntry E Returns e w) = logLines w @ [Entry ?e']"
    using cur by (simp add: logLines_def)
  have last: "lastHash (writeEntry E Returns e w) = e_hash ?e'"
    using en assms(2) by (simp add: writeEntry_def Let_def)
  have "verifyLines E (logLines w @ [Entry ?e']) 0 HNull 0
          = verifyLines E [Entry ?e'] (length (logLines w)) (lastHash w) (length (logLines w))"
    using verifyLines_append [OF v, of "[Entry ?e']"] lh by (simp add: endHash_def)
  also have "\<dots> = Valid (length (logLines w) + 1)"
    by simp
  finally have "verifyLines E (logLines (writeEntry E Returns e w)) 0 HNull 0
                  = Valid (length (logLines (writeEntry E Returns e w)))"
    using lines by simp
  moreover have "enableChainValidation (writeEntry E Returns e w)"
    using en assms(2) by (simp add: writeEntry_def Let_def)
  moreover have "lastHash (writeEntry E Returns e w)
                   = endHash (logLines (writeEntry E Returns e w))"
    using last lines by (simp add: endHash_def hashOf_def)
  ultimately show "chainState E (writeEntry E Returns e w)"
    by (simp add: chainState_def)
qed

lemma writeAll_chainState:
  "chainState E w \<Longrightarrow> noRotation E es w \<Longrightarrow>
   chainState E (writeAll E es w)
   \<and> (\<exists>new. logLines (writeAll E es w) = logLines w @ new
            \<and> list_all2 (\<lambda>l e. \<exists>p h. l = Entry (e\<lparr>e_previousHash := p, e_hash := h\<rparr>)) new es)
   \<and> (es \<noteq> [] \<longrightarrow> currentLog (writeAll E es w) \<noteq> None)"
proof (induction es arbitrary: w)
  case Nil
  then show ?case by simp
next
  case (Cons e es)
  let ?w = "writeEntry E Returns e w"
  from Cons.prems have nr: "\<not> shouldRotate E w" and rest: "noRotation E es ?w"
    by simp_all
  note st = writeEntry_chainState [OF Cons.prems(1) nr, of e]
  from Cons.IH [OF st(1) rest]
  obtain new where cs: "chainState E (writeAll E es ?w)"
    and new: "logLines (writeAll E es ?w) = logLines ?w @ new"
      "list_all2 (\<lambda>l e. \<exists>p h. l = Entry (e\<lparr>e_previousHash := p, e_hash := h\<rparr>)) new es"
    and ex: "es \<noteq> [] \<longrightarrow> currentLog (writeAll E es ?w) \<noteq> None"
    by blast
  let ?l = "Entry (e\<lparr>e_previousHash := lastHash w,
                    e_hash := HStr (hashEntry E (e\<lparr>e_previousHash := lastHash w\<rparr>))\<rparr>)"
  have l: "logLines ?w = logLines w @ [?l]"
    using st(2) by (simp add: logLines_def)
  have "logLines (writeAll E (e # es) w) = logLines w @ (?l # new)"
    using new(1) l by simp
  moreover have "list_all2 (\<lambda>l e. \<exists>p h. l = Entry (e\<lparr>e_previousHash := p, e_hash := h\<rparr>))
                   (?l # new) (e # es)"
    using new(2) by auto
  moreover have "currentLog (writeAll E (e # es) w) \<noteq> None"
  proof (cases es)
    case Nil
    then show ?thesis using st(2) by simp
  next
    case (Cons a list)
    then show ?thesis using ex by simp
  qed
  ultimately show ?case using cs by auto
qed

lemma fresh_chainState:
  assumes "enableChainValidation w" and "currentLog w = None \<or> currentLog w = Some []"
    and "lastHash w = getLastHash (currentLog w)"
  shows "chainState E w" and "logLines w = []"
  using assms
  by (auto simp: chainState_def logLines_def endHash_def getLastHash_def trimSplit_def)

text \<open>Calls that are all made on the one logger object and all return.\<close>

lemma writeCalls_this:
  "list_all (\<lambda>c. c_logger c = This \<and> c_completion c = Returns) calls \<Longrightarrow>
   writeCalls E calls (h, w) = (h, writeAll E (map c_entry calls) w)"
  by (induction calls arbitrary: w) simp_all

text \<open>
  C7, as amended. A logger object is constructed on a new or empty file, with chain
  validation enabled. Every call of \<open>writeEntry\<close> that follows is made on this one object
  (no other logger object appends to the file) and returns (neither
  \<open>JSON.stringify(entry)\<close> nor \<open>appendFileSync\<close> throws), and none of them rotates the
  file. Then the file holds one line for each call, in the order of the calls, each with
  the entry that was passed; every entry carries the digest of its six hashed properties
  as \<open>hash\<close>, its \<open>previousHash\<close> is the \<open>hash\<close> of the entry before it and \<open>null\<close> for the
  first, and \<open>verifyChain\<close> returns \<open>valid: true\<close> with the number of entries.
\<close>

theorem hash_chain_round_trip:
  "enableChainValidation w
   \<and> (currentLog w = None \<or> currentLog w = Some [])
   \<and> lastHash w = getLastHash (currentLog w)
   \<and> list_all (\<lambda>c. c_logger c = This \<and> c_completion c = Returns) calls
   \<and> noRotation E (map c_entry calls) w \<and> calls \<noteq> []
   \<longrightarrow>
   (\<exists>ls. currentLog (snd (writeCalls E calls (h, w))) = Some ls
      \<and> length ls = length calls
      \<and> (\<forall>i < length calls. \<exists>e.
            ls ! i = Entry e
            \<and> e_hash e = HStr (sha256_json E (e_type e, e_timestamp e, e_agentId e,
                                                e_action e, e_decision e, e_previousHash e))
            \<and> e_previousHash e = (if i = 0 then HNull else hashOf (ls ! (i - 1)))
            \<and> e = (c_entry (calls ! i))\<lparr>e_previousHash := e_previousHash e,
                                          e_hash := e_hash e\<rparr>)
      \<and> verifyChain E (Some ls) = Valid (length calls))"
proof (intro impI, elim conjE)
  assume en: "enableChainValidation w"
    and fresh: "currentLog w = None \<or> currentLog w = Some []"
    and lh: "lastHash w = getLastHash (currentLog w)"
    and own: "list_all (\<lambda>c. c_logger c = This \<and> c_completion c = Returns) calls"
    and nr: "noRotation E (map c_entry calls) w" and ne: "calls \<noteq> []"
  define es where "es = map c_entry calls"
  have run: "snd (writeCalls E calls (h, w)) = writeAll E es w"
    using writeCalls_this [OF own] by (simp add: es_def)
  have nr': "noRotation E es w" and ne': "es \<noteq> []" and len': "length es = length calls"
    using nr ne by (simp_all add: es_def)
  note st1 = fresh_chainState(1) [OF en fresh lh, of E]
  note st2 = fresh_chainState(2) [OF en fresh lh]
  from writeAll_chainState [OF st1 nr'] st2 ne'
  obtain ls where cs: "chainState E (writeAll E es w)"
    and ls: "logLines (writeAll E es w) = ls"
    and rel: "list_all2 (\<lambda>l e. \<exists>p h. l = Entry (e\<lparr>e_previousHash := p, e_hash := h\<rparr>)) ls es"
    and ex: "currentLog (writeAll E es w) \<noteq> None"
    by auto
  have cur: "currentLog (snd (writeCalls E calls (h, w))) = Some ls"
    using ls ex run by (auto simp: logLines_def)
  have len: "length ls = length calls"
    using list_all2_lengthD [OF rel] len' by simp
  have v: "verifyLines E ls 0 HNull 0 = Valid (length ls)"
    using cs ls by (simp add: chainState_def)
  have vc: "verifyChain E (Some ls) = Valid (length calls)"
    using verifyChain_lines [OF verifyLines_entries [OF v], of E] v len by simp
  have each: "\<exists>e. ls ! i = Entry e
            \<and> e_hash e = HStr (sha256_json E (e_type e, e_timestamp e, e_agentId e,
                                                e_action e, e_decision e, e_previousHash e))
            \<and> e_previousHash e = (if i = 0 then HNull else hashOf (ls ! (i - 1)))
            \<and> e = (c_entry (calls ! i))\<lparr>e_previousHash := e_previousHash e,
                                          e_hash := e_hash e\<rparr>"
    if i: "i < length calls" for i
  proof -
    from verifyLines_nth [OF v] i len
    obtain e where e: "ls ! i = Entry e" "e_hash e = HStr (hashEntry E e)"
      "e_previousHash e = (if i = 0 then HNull else hashOf (ls ! (i - 1)))"
      by auto
    have i': "i < length es" using i len' by simp
    from list_all2_nthD2 [OF rel i'] e(1)
    obtain p h where "e = (es ! i)\<lparr>e_previousHash := p, e_hash := h\<rparr>"
      by auto
    then have "e = (es ! i)\<lparr>e_previousHash := e_previousHash e, e_hash := e_hash e\<rparr>"
      by simp
    moreover have "es ! i = c_entry (calls ! i)"
      using i by (simp add: es_def)
    ultimately show ?thesis using e by (auto simp: hashEntry_def)
  qed
  show "\<exists>ls. currentLog (snd (writeCalls E calls (h, w))) = Some ls
      \<and> length ls = length calls
      \<and> (\<forall>i < length calls. \<exists>e.
            ls ! i = Entry e
            \<and> e_hash e = HStr (sha256_json E (e_type e, e_timestamp e, e_agentId e,
                                                e_action e, e_decision e, e_previousHash e))
            \<and> e_previousHash e = (if i = 0 then HNull else hashOf (ls ! (i - 1)))
            \<and> e = (c_entry (calls ! i))\<lparr>e_previousHash := e_previousHash e,
                                          e_hash := e_hash e\<rparr>)
      \<and> verifyChain E (Some ls) = Valid (length calls)"
    using cur len each vc by blast
qed

lemma demo_noRotation:
  "noRotation demoEnv [demoEntry ''a'' 100, demoEntry ''b'' 200] freshWorld"
  by (simp add: shouldRotate_def writeEntry_def freshWorld_def demoEnv_def Let_def
        rotateLogFile_def)

text \<open>The theorem at two calls on a fresh logger, both returning.\<close>

theorem hash_chain_round_trip_witness:
  "verifyChain demoEnv (currentLog (snd (writeCalls demoEnv demoCalls bothLoggers))) = Valid 2"
proof -
  have h: "enableChainValidation freshWorld
           \<and> (currentLog freshWorld = None \<or> currentLog freshWorld = Some [])
           \<and> lastHash freshWorld = getLastHash (currentLog freshWorld)
           \<and> list_all (\<lambda>c. c_logger c = This \<and> c_completion c = Returns) demoCalls
           \<and> noRotation demoEnv (map c_entry demoCalls) freshWorld
           \<and> demoCalls \<noteq> []"
    using demo_noRotation by (simp add: freshWorld_def demoCalls_def)
  from hash_chain_round_trip
         [where w = freshWorld and E = demoEnv and calls = demoCalls
            and h = "getLastHash (currentLog freshWorld)", rule_format, OF h]
  show ?thesis
    by (auto simp: bothLoggers_def demoCalls_def)
qed

text \<open>
  C7 as stated fails in two ways, both with chain validation enabled, no rotation and
  every line written by \<open>writeEntry\<close>. Two logger objects are constructed while the file
  does not exist and each writes one entry: the second entry is chained to \<open>null\<close>, not
  to the first, and \<open>verifyChain\<close> reports a broken chain at line 2. On one logger
  object, a call that throws after \<open>lastHash\<close> has been set is followed by a call that
  returns: the only line of the file is chained to a hash that is not in the file, and
  \<open>verifyChain\<close> reports a broken chain at line 1.
\<close>

theorem hash_chain_counterexample:
  "verifyChain demoEnv (currentLog (snd (writeCalls demoEnv twoLoggers bothLoggers)))
     = HashChainBroken 2
   \<and> rotatedLogs (snd (writeCalls demoEnv twoLoggers bothLoggers)) = []
   \<and> verifyChain demoEnv (currentLog (snd (writeCalls demoEnv failedWrite bothLoggers)))
       = HashChainBroken 1
   \<and> rotatedLogs (snd (writeCalls demoEnv failedWrite bothLoggers)) = []"
  by (simp add: twoLoggers_def failedWrite_def bothLoggers_def writeEntryOther_def
        writeEntry_def shouldRotate_def freshWorld_def getLastHash_def demoEnv_def
        hashEntry_def demoEntry_def Let_def verifyChain_def nonEmptyLines_def
        trimSplit_def blank_def)

subsection \<open>Tampering with a line\<close>

lemma verifyLines_prefix:
  "verifyLines E (xs @ ys) i prev n = Valid m \<Longrightarrow>
   verifyLines E xs i prev n = Valid (n + length xs)"
  by (induction E xs i prev n rule: verifyLines.induct) (auto split: if_splits)

lemma verifyLines_at:
  assumes v: "verifyLines E ls 0 HNull 0 = Valid n" and i: "i < length ls"
  shows "verifyLines E (take i ls @ ys) 0 HNull 0
           = verifyLines E ys i (if i = 0 then HNull else hashOf (ls ! (i - 1))) i"
    and "verifyLines E (take i ls) 0 HNull 0 = Valid i"
proof -
  have "verifyLines E (take i ls @ drop i ls) 0 HNull 0 = Valid n"
    using v by simp
  then show p: "verifyLines E (take i ls) 0 HNull 0 = Valid i"
    using verifyLines_prefix [of E "take i ls" "drop i ls" 0 HNull 0 n] i by simp
  have l: "last (take i ls) = ls ! (i - 1)" if "0 < i"
  proof -
    have "take i ls \<noteq> []" and "length (take i ls) = i"
      using that i by auto
    then have "last (take i ls) = take i ls ! (i - 1)"
      by (simp add: last_conv_nth)
    then show ?thesis using that by simp
  qed
  show "verifyLines E (take i ls @ ys) 0 HNull 0
           = verifyLines E ys i (if i = 0 then HNull else hashOf (ls ! (i - 1))) i"
    using verifyLines_append [OF p, of ys] i l by auto
qed

lemma verifyLines_same_hashes:
  assumes "e_previousHash e' = e_previousHash e" and "e_hash e' = e_hash e"
    and "hashEntry E e' = hashEntry E e"
  shows "verifyLines E (Entry e' # ls) i prev n = verifyLines E (Entry e # ls) i prev n"
  using assms by simp

lemma list_all_update:
  "list_all P ls \<Longrightarrow> P x \<Longrightarrow> list_all P (ls[i := x])"
  by (induction ls arbitrary: i) (auto split: nat.splits)

text \<open>
  C2, as amended. The file holds entries only and \<open>verifyChain\<close> accepts it; \<open>e\<close> is the
  entry of line \<open>i + 1\<close>. The line is replaced by an entry \<open>e'\<close> that differs from \<open>e\<close>
  in one or more of the hashed properties \<open>type\<close>, \<open>timestamp\<close>, \<open>agentId\<close>, \<open>action\<close> and
  \<open>decision\<close>, with \<open>hash\<close> and \<open>previousHash\<close> as they were: when the SHA-256 digest of
  the changed properties differs from that of the original ones, \<open>verifyChain\<close> reports
  an entry hash mismatch at that line. A different \<open>hash\<close> gives an entry hash mismatch
  and a different \<open>previousHash\<close> a broken chain at that line; text that is not blank and
  that \<open>JSON.parse\<close> rejects gives invalid JSON at that line. A change of a property
  outside the hashed ones (the context, details, result, duration and the other
  properties of the body, \<open>timestampUnix\<close>) is not detected: \<open>verifyChain\<close> returns what
  it returned before. Nor is the last line detected when it is blanked, to nothing or to
  white space: \<open>trim\<close> drops it and \<open>verifyChain\<close> returns \<open>valid: true\<close> with one entry
  fewer.
\<close>

theorem tamper_detection:
  "verifyChain E (Some ls) = Valid n \<and> list_all (\<lambda>l. \<not> blank l) ls
   \<and> i < length ls \<and> ls ! i = Entry e
   \<longrightarrow>
   ((e_type e', e_timestamp e', e_agentId e', e_action e', e_decision e')
        \<noteq> (e_type e, e_timestamp e, e_agentId e, e_action e, e_decision e)
      \<and> sha256_json E (e_type e', e_timestamp e', e_agentId e', e_action e', e_decision e',
                         e_previousHash e)
        \<noteq> sha256_json E (e_type e, e_timestamp e, e_agentId e, e_action e, e_decision e,
                           e_previousHash e)
      \<and> e_previousHash e' = e_previousHash e \<and> e_hash e' = e_hash e
      \<longrightarrow> verifyChain E (Some (ls[i := Entry e'])) = EntryHashMismatch (i + 1))
   \<and> (h \<noteq> e_hash e
      \<longrightarrow> verifyChain E (Some (ls[i := Entry (e\<lparr>e_hash := h\<rparr>)])) = EntryHashMismatch (i + 1))
   \<and> (p \<noteq> e_previousHash e
      \<longrightarrow> verifyChain E (Some (ls[i := Entry (e\<lparr>e_previousHash := p\<rparr>)]))
            = HashChainBroken (i + 1))
   \<and> verifyChain E (Some (ls[i := Malformed])) = InvalidJSON (i + 1)
   \<and> verifyChain E (Some (ls[i := Entry (e\<lparr>e_body := b, e_timestampUnix := t\<rparr>)])) = Valid n
   \<and> (i + 1 = length ls \<and> blank l
      \<longrightarrow> verifyChain E (Some (ls[i := l])) = Valid (n - 1))"
proof (intro impI, elim conjE)
  assume v0: "verifyChain E (Some ls) = Valid n"
    and nb: "list_all (\<lambda>l. \<not> blank l) ls"
    and i: "i < length ls" and e: "ls ! i = Entry e"
  have v: "verifyLines E ls 0 HNull 0 = Valid n"
    using v0 verifyChain_lines [OF nb, of E] by simp
  have n: "n = length ls"
    using verifyLines_count [OF v] by simp
  let ?prev = "if i = 0 then HNull else hashOf (ls ! (i - 1))"
  let ?rest = "drop (Suc i) ls"
  have upd: "verifyChain E (Some (ls[i := x])) = verifyLines E (x # ?rest) i ?prev i"
    if "\<not> blank x" for x
  proof -
    have "list_all (\<lambda>l. \<not> blank l) (ls[i := x])"
      using nb that by (rule list_all_update)
    then show ?thesis
      using verifyLines_at(1) [OF v i, of "x # ?rest"] i
      by (simp add: verifyChain_lines upd_conv_take_nth_drop)
  qed
  have [simp]: "\<not> blank (Entry x)" "\<not> blank Malformed" for x
    by (simp_all add: blank_def)
  from verifyLines_nth [OF v i] e
  have ok: "e_hash e = HStr (hashEntry E e)" "e_previousHash e = ?prev"
    by auto
  have "ls[i := Entry e] = ls"
    using e by (metis list_update_id)
  then have orig: "verifyLines E (Entry e # ?rest) i ?prev i = Valid n"
    using upd [of "Entry e"] v0 by simp
  have a: "verifyChain E (Some (ls[i := Entry e'])) = EntryHashMismatch (i + 1)"
    if "sha256_json E (e_type e', e_timestamp e', e_agentId e', e_action e', e_decision e',
                       e_previousHash e)
        \<noteq> sha256_json E (e_type e, e_timestamp e, e_agentId e, e_action e, e_decision e,
                           e_previousHash e)"
      and "e_previousHash e' = e_previousHash e" and "e_hash e' = e_hash e"
    using that ok by (simp add: upd hashEntry_def)
  have b: "verifyChain E (Some (ls[i := Entry (e\<lparr>e_hash := h\<rparr>)])) = EntryHashMismatch (i + 1)"
    if "h \<noteq> e_hash e"
    using that ok by (simp add: upd)
  have c: "verifyChain E (Some (ls[i := Entry (e\<lparr>e_previousHash := p\<rparr>)]))
             = HashChainBroken (i + 1)"
    if "p \<noteq> e_previousHash e"
    using that ok by (simp add: upd)
  have d: "verifyChain E (Some (ls[i := Malformed])) = InvalidJSON (i + 1)"
    by (simp add: upd)
  have "hashEntry E (e\<lparr>e_body := b, e_timestampUnix := t\<rparr>) = hashEntry E e"
    by (simp add: hashEntry_def)
  then have "verifyLines E (Entry (e\<lparr>e_body := b, e_timestampUnix := t\<rparr>) # ?rest) i ?prev i
               = verifyLines E (Entry e # ?rest) i ?prev i"
    by (intro verifyLines_same_hashes) simp_all
  moreover have "verifyChain E (Some (ls[i := Entry (e\<lparr>e_body := b, e_timestampUnix := t\<rparr>)]))
                   = verifyLines E (Entry (e\<lparr>e_body := b, e_timestampUnix := t\<rparr>) # ?rest)
                       i ?prev i"
    by (rule upd) simp
  ultimately have f:
    "verifyChain E (Some (ls[i := Entry (e\<lparr>e_body := b, e_timestampUnix := t\<rparr>)])) = Valid n"
    using orig by (simp only:)
  have g: "verifyChain E (Some (ls[i := l])) = Valid (n - 1)"
    if last: "i + 1 = length ls" and bl: "blank l"
  proof -
    have "ls[i := l] = take i ls @ [l]"
      using last i by (simp add: upd_conv_take_nth_drop)
    moreover have "list_all (\<lambda>l. \<not> blank l) (take i ls)"
      using nb by (auto simp: list_all_iff dest: in_set_takeD)
    ultimately have "verifyChain E (Some (ls[i := l])) = verifyLines E (take i ls) 0 HNull 0"
      using bl by (simp add: verifyChain_def nonEmptyLines_blank_end)
    then show ?thesis
      using verifyLines_at(2) [OF v i] n last by simp
  qed
  show "((e_type e', e_timestamp e', e_agentId e', e_action e', e_decision e')
        \<noteq> (e_type e, e_timestamp e, e_agentId e, e_action e, e_decision e)
      \<and> sha256_json E (e_type e', e_timestamp e', e_agentId e', e_action e', e_decision e',
                         e_previousHash e)
        \<noteq> sha256_json E (e_type e, e_timestamp e, e_agentId e, e_action e, e_decision e,
                           e_previousHash e)
      \<and> e_previousHash e' = e_previousHash e \<and> e_hash e' = e_hash e
      \<longrightarrow> verifyChain E (Some (ls[i := Entry e'])) = EntryHashMismatch (i + 1))
   \<and> (h \<noteq> e_hash e
      \<longrightarrow> verifyChain E (Some (ls[i := Entry (e\<lparr>e_hash := h\<rparr>)])) = EntryHashMismatch (i + 1))
   \<and> (p \<noteq> e_previousHash e
      \<longrightarrow> verifyChain E (Some (ls[i := Entry (e\<lparr>e_previousHash := p\<rparr>)]))
            = HashChainBroken (i + 1))
   \<and> verifyChain E (Some (ls[i := Malformed])) = InvalidJSON (i + 1)
   \<and> verifyChain E (Some (ls[i := Entry (e\<lparr>e_body := b, e_timestampUnix := t\<rparr>)])) = Valid n
   \<and> (i + 1 = length ls \<and> blank l
      \<longrightarrow> verifyChain E (Some (ls[i := l])) = Valid (n - 1))"
    using a b c d f g by blast
qed

lemma demoLog_eq:
  "demoLog =
     [Entry ((demoEntry ''a'' 100)
               \<lparr>e_previousHash := HNull,
                e_hash := HStr ''policy_decision/2026-02-04T10:00:00.000Z/-''\<rparr>),
      Entry ((demoEntry ''b'' 200)
               \<lparr>e_previousHash := HStr ''policy_decision/2026-02-04T10:00:00.000Z/-'',
                e_hash := HStr (''policy_decision/2026-02-04T10:00:00.000Z/''
                                @ ''policy_decision/2026-02-04T10:00:00.000Z/-'')\<rparr>)]"
  by (simp add: demoLog_def logLines_def writeEntry_def shouldRotate_def freshWorld_def
        getLastHash_def demoEnv_def hashEntry_def demoEntry_def Let_def)

lemma demoLog_entries: "list_all (\<lambda>l. \<not> blank l) demoLog"
  by (simp add: demoLog_eq blank_def)

lemma demoLog_valid: "verifyChain demoEnv (Some demoLog) = Valid 2"
  by (simp add: verifyChain_lines [OF demoLog_entries])
     (simp add: demoLog_eq hashEntry_def demoEnv_def demoEntry_def)

text \<open>
  The theorem at the second line of a two-line log, with the \<open>type\<close> of the entry
  changed.
\<close>

theorem tamper_detection_witness:
  "verifyChain demoEnv (Some (demoLog[1 := setType ''agent_action'' (demoLog ! 1)]))
     = EntryHashMismatch 2"
proof -
  let ?e = "(demoEntry ''b'' 200)
               \<lparr>e_previousHash := HStr ''policy_decision/2026-02-04T10:00:00.000Z/-'',
                e_hash := HStr (''policy_decision/2026-02-04T10:00:00.000Z/''
                                @ ''policy_decision/2026-02-04T10:00:00.000Z/-'')\<rparr>"
  let ?e' = "?e\<lparr>e_type := ''agent_action''\<rparr>"
  have h: "verifyChain demoEnv (Some demoLog) = Valid 2
           \<and> list_all (\<lambda>l. \<not> blank l) demoLog \<and> 1 < length demoLog
           \<and> demoLog ! 1 = Entry ?e"
    using demoLog_valid demoLog_entries by (simp add: demoLog_eq)
  have t: "(e_type ?e', e_timestamp ?e', e_agentId ?e', e_action ?e', e_decision ?e')
             \<noteq> (e_type ?e, e_timestamp ?e, e_agentId ?e, e_action ?e, e_decision ?e)
           \<and> sha256_json demoEnv (e_type ?e', e_timestamp ?e', e_agentId ?e', e_action ?e',
                                   e_decision ?e', e_previousHash ?e)
             \<noteq> sha256_json demoEnv (e_type ?e, e_timestamp ?e, e_agentId ?e, e_action ?e,
                                     e_decision ?e, e_previousHash ?e)
           \<and> e_previousHash ?e' = e_previousHash ?e \<and> e_hash ?e' = e_hash ?e"
    by (simp add: demoEnv_def demoEntry_def)
  have s: "setType ''agent_action'' (demoLog ! 1) = Entry ?e'"
    by (simp add: demoLog_eq setType_def)
  from tamper_detection
         [where E = demoEnv and ls = demoLog and n = 2 and i = 1 and e = ?e
            and e' = ?e',
          rule_format, OF h, THEN conjunct1, rule_format, OF t]
  show ?thesis using s by simp
qed

lemma body_differs:
  "setBody (DecisionBody [''amount'' \<mapsto> JNum (Fin 900)] 3) (demoLog ! 0) \<noteq> demoLog ! 0"
proof
  assume "setBody (DecisionBody [''amount'' \<mapsto> JNum (Fin 900)] 3) (demoLog ! 0) = demoLog ! 0"
  then have "[''amount'' \<mapsto> JNum (Fin 900)] = [''amount'' \<mapsto> JNum (Fin 100)]"
    by (simp add: demoLog_eq setBody_def demoEntry_def)
  then have "JNum (Fin 900) = JNum (Fin 100)"
    by (rule map_upd_eqD1)
  then show False by simp
qed

text \<open>
  C2 as stated fails for every logged property that \<open>hashEntry\<close> does not read. In a
  log of two policy decisions the context of the first is changed from an amount of 100
  to an amount of 900, one byte of the line: the line differs, and \<open>verifyChain\<close> still
  returns \<open>valid: true\<close> with two entries.
\<close>

theorem tamper_counterexample:
  "setBody (DecisionBody [''amount'' \<mapsto> JNum (Fin 900)] 3) (demoLog ! 0) \<noteq> demoLog ! 0
   \<and> verifyChain demoEnv (Some demoLog) = Valid 2
   \<and> verifyChain demoEnv
        (Some (demoLog[0 := setBody (DecisionBody [''amount'' \<mapsto> JNum (Fin 900)] 3)
                               (demoLog ! 0)])) = Valid 2"
  using body_differs demoLog_valid
  by (simp add: demoLog_eq setBody_def verifyChain_def hashEntry_def demoEnv_def demoEntry_def
        nonEmptyLines_def trimSplit_def blank_def)

subsection \<open>What a log call leaves unchanged and what it appends\<close>

lemma writeEntry_identities [simp]:
  "identities (writeEntry E c e w) = identities w"
  "trustScores (writeEntry E c e w) = trustScores w"
  by (simp_all add: writeEntry_def rotateLogFile_def Let_def split: option.splits completion.splits)

lemma allLines_writeEntry:
  "\<exists>e'. allLines (writeEntry E Returns e w) = allLines w @ [Entry e'] \<and> e_type e' = e_type e"
  by (auto simp: allLines_def logLines_def writeEntry_def rotateLogFile_def shouldRotate_def
        Let_def split: option.splits)

lemma countType_writeEntry:
  "countType ty (writeEntry E Returns e w) = countType ty w + (if e_type e = ty then 1 else 0)"
  using allLines_writeEntry [of E e w] by (auto simp: countType_def hasType_def)

lemma dateNow_fields [simp]:
  "identities (snd (dateNow E w)) = identities w"
  "trustScores (snd (dateNow E w)) = trustScores w"
  "allLines (snd (dateNow E w)) = allLines w"
  "countType ty (snd (dateNow E w)) = countType ty w"
  by (simp_all add: dateNow_def allLines_def logLines_def countType_def)

lemma logIdentityVerification_fields [simp]:
  "identities (logIdentityVerification E a vt r w) = identities w"
  "trustScores (logIdentityVerification E a vt r w) = trustScores w"
  by (simp_all add: logIdentityVerification_def split_def Let_def)

lemma logIdentityVerification_count [simp]:
  "countType ''identity_verification'' (logIdentityVerification E a vt r w)
     = countType ''identity_verification'' w + 1"
  by (simp add: logIdentityVerification_def split_def Let_def countType_writeEntry)

lemma logDecision_fields [simp]:
  "identities (logDecision E a action ctx d ms w) = identities w"
  "trustScores (logDecision E a action ctx d ms w) = trustScores w"
  by (simp_all add: logDecision_def split_def Let_def)

lemma logDecision_count [simp]:
  "countType ''identity_verification'' (logDecision E a action ctx d ms w)
     = countType ''identity_verification'' w"
  "countType ''policy_decision'' (logDecision E a action ctx d ms w)
     = countType ''policy_decision'' w + 1"
  by (simp_all add: logDecision_def split_def Let_def countType_writeEntry)

lemma logged_fields [simp]:
  "identities (snd (logged E a action ctx t d w)) = identities w"
  "trustScores (snd (logged E a action ctx t d w)) = trustScores w"
  "countType ''identity_verification'' (snd (logged E a action ctx t d w))
     = countType ''identity_verification'' w"
  "countType ''policy_decision'' (snd (logged E a action ctx t d w))
     = countType ''policy_decision'' w + 1"
  by (simp_all add: logged_def split_def Let_def)

lemma checkPermission_fields [simp]:
  "identities (snd (checkPermission E policies a action ctx w)) = identities w"
  "trustScores (snd (checkPermission E policies a action ctx w)) = trustScores w"
  "countType ''identity_verification'' (snd (checkPermission E policies a action ctx w))
     = countType ''identity_verification'' w"
  "countType ''policy_decision'' (snd (checkPermission E policies a action ctx w))
     = countType ''policy_decision'' w + 1"
  by (simp_all add: checkPermission_def split_def Let_def split: option.splits)

subsection \<open>Trust scores and revocation\<close>

lemma setIdentityScore_fields [simp]:
  "trustScores (setIdentityScore a s w) = trustScores w"
  "countType ty (setIdentityScore a s w) = countType ty w"
  "revoked (setIdentityScore a s w) b = revoked w b"
  "(identities (setIdentityScore a s w) b = None) = (identities w b = None)"
  by (auto simp: setIdentityScore_def countType_def allLines_def logLines_def revoked_def
           split: option.splits)

lemma getTrustScore_upd [simp]:
  "getTrustScore (w\<lparr>trustScores := (trustScores w)(a \<mapsto> s)\<rparr>) b
     = (if b = a then s else getTrustScore w b)"
  by (simp add: getTrustScore_def)

lemma getTrustScore_cong: "trustScores w' = trustScores w \<Longrightarrow> getTrustScore w' = getTrustScore w"
  by (rule ext) (simp add: getTrustScore_def)


lemma incrementTrustScore_revoked [simp]:
  "revoked (incrementTrustScore a amount w) b = revoked w b"
  by (simp add: incrementTrustScore_def Let_def) (simp add: revoked_def)

lemma countType_frame [simp]:
  "countType ty (w\<lparr>clock := c\<rparr>) = countType ty w"
  "countType ty (w\<lparr>identities := ids\<rparr>) = countType ty w"
  "countType ty (w\<lparr>trustScores := ts\<rparr>) = countType ty w"
  by (simp_all add: countType_def allLines_def logLines_def)

lemma revokeIdentity_known:
  assumes "identities w a = Some i"
  shows "fst (revokeIdentity E a why w) = None"
    and "revoked (snd (revokeIdentity E a why w)) a"
    and "getTrustScore (snd (revokeIdentity E a why w)) b = (if b = a then 0 else getTrustScore w b)"
    and "countType ''identity_verification'' (snd (revokeIdentity E a why w))
           = countType ''identity_verification'' w + 1"
  using assms
  by (simp_all add: revokeIdentity_def split_def Let_def revoked_def getTrustScore_def
        dateNow_def)

lemma revoked_frame [simp]:
  "revoked (w\<lparr>clock := c\<rparr>) b = revoked w b"
  "revoked (w\<lparr>trustScores := ts\<rparr>) b = revoked w b"
  "revoked (logIdentityVerification E a vt r w) b = revoked w b"
  "revoked (snd (dateNow E w)) b = revoked w b"
  "revoked (snd (checkPermission E policies a action ctx w)) b = revoked w b"
  by (simp_all add: revoked_def)



lemma decrementTrustScore_known:
  assumes "identities w a = Some i"
  shows "fst (decrementTrustScore E a amount w) = None"
    and "max 0 (getTrustScore w a - amount) = 0
           \<Longrightarrow> revoked (snd (decrementTrustScore E a amount w)) a"
    and "getTrustScore (snd (decrementTrustScore E a amount w)) b
           = (if b = a then max 0 (getTrustScore w a - amount) else getTrustScore w b)"
    and "countType ''identity_verification'' (snd (decrementTrustScore E a amount w))
           = countType ''identity_verification'' w
             + (if max 0 (getTrustScore w a - amount) = 0 then 1 else 0)"
proof -
  define s where "s = max 0 (getTrustScore w a - amount)"
  define w1 where "w1 = setIdentityScore a s (w\<lparr>trustScores := (trustScores w)(a \<mapsto> s)\<rparr>)"
  obtain i' where i': "identities w1 a = Some i'"
    using assms by (auto simp: w1_def setIdentityScore_def)
  have d: "decrementTrustScore E a amount w
             = (if s = 0 then revokeIdentity E a ''Trust score reached zero'' w1 else (None, w1))"
    by (simp add: decrementTrustScore_def Let_def s_def w1_def)
  have g: "getTrustScore w1 b = (if b = a then s else getTrustScore w b)"
    by (simp add: w1_def getTrustScore_def)
  have c: "countType ''identity_verification'' w1 = countType ''identity_verification'' w"
    by (simp add: w1_def)
  note r = revokeIdentity_known [OF i', of E "''Trust score reached zero''"]
  have 1: "fst (decrementTrustScore E a amount w) = None"
    using r(1) by (simp add: d)
  have 2: "revoked (snd (decrementTrustScore E a amount w)) a" if "s = 0"
    using r(2) that by (simp add: d)
  have 3: "getTrustScore (snd (decrementTrustScore E a amount w)) b
           = (if b = a then s else getTrustScore w b)"
    using r(3) [of b] g by (auto simp: d)
  have 4: "countType ''identity_verification'' (snd (decrementTrustScore E a amount w))
           = countType ''identity_verification'' w + (if s = 0 then 1 else 0)"
    using r(4) c by (simp add: d)
  show "fst (decrementTrustScore E a amount w) = None"
    by (rule 1)
  show "max 0 (getTrustScore w a - amount) = 0
           \<Longrightarrow> revoked (snd (decrementTrustScore E a amount w)) a"
    using 2 unfolding s_def .
  show "getTrustScore (snd (decrementTrustScore E a amount w)) b
           = (if b = a then max 0 (getTrustScore w a - amount) else getTrustScore w b)"
    using 3 unfolding s_def .
  show "countType ''identity_verification'' (snd (decrementTrustScore E a amount w))
           = countType ''identity_verification'' w
             + (if max 0 (getTrustScore w a - amount) = 0 then 1 else 0)"
    using 4 unfolding s_def .
qed









lemma alice_fresh: "activeWith aliceWorld ''alice'' 100"
  by (simp add: activeWith_def aliceWorld_def createIdentity_def freshWorld_def
        getTrustScore_def)



subsection \<open>The entries that verifyIdentity writes\<close>

lemma verifyIdentity_zeroed:
  assumes "zeroedBySignature E a cred w"
  shows "countType ''identity_verification'' (snd (verifyIdentity E a cred w))
           = countType ''identity_verification'' w + 2"
proof -
  obtain i where i: "identities w a = Some i" and active: "status i \<noteq> ''revoked''"
    and bad: "truthy (signature cred) \<and> truthy (message cred)
              \<and> \<not> cryptoVerify E (publicKey i) (message cred) (signature cred)"
    and low: "getTrustScore w a \<le> 10"
    using assms by (auto simp: zeroedBySignature_def split: option.splits)
  obtain w1 where d: "decrementTrustScore E a 10 w = (None, w1)"
    using decrementTrustScore_known(1) [OF i, of E 10]
    by (cases "decrementTrustScore E a 10 w") simp
  have "countType ''identity_verification'' w1 = countType ''identity_verification'' w + 1"
    using decrementTrustScore_known(4) [OF i, of E 10] d low by simp
  then show ?thesis
    using i active bad d by (simp add: verifyIdentity_def Let_def)
qed

text \<open>
  C8, as amended. A call of \<open>verifyIdentity\<close> returns without throwing and adds one
  \<open>identity_verification\<close> entry to the log, except when a failed signature check
  brings the trust score of an active identity to 0: the revocation that this triggers
  writes an \<open>identity_verification\<close> entry of its own, so that the call adds two.
\<close>

theorem verifyIdentity_entries:
  "(\<exists>r. fst (verifyIdentity E a cred w) = Inr r)
   \<and> countType ''identity_verification'' (snd (verifyIdentity E a cred w))
       = countType ''identity_verification'' w
         + (if zeroedBySignature E a cred w then 2 else 1)"
proof (cases "identities w a")
  case None
  then show ?thesis
    by (simp add: verifyIdentity_def zeroedBySignature_def Let_def)
next
  case (Some i)
  show ?thesis
  proof (cases "status i = ''revoked''")
    case True
    then show ?thesis using Some
      by (simp add: verifyIdentity_def zeroedBySignature_def Let_def)
  next
    case active: False
    show ?thesis
    proof (cases "truthy (signature cred) \<and> truthy (message cred)
                  \<and> \<not> cryptoVerify E (publicKey i) (message cred) (signature cred)")
      case True
      obtain w1 where d: "decrementTrustScore E a 10 w = (None, w1)"
        using decrementTrustScore_known(1) [OF Some, of E 10]
        by (cases "decrementTrustScore E a 10 w") simp
      have c: "countType ''identity_verification'' w1
                 = countType ''identity_verification'' w
                   + (if getTrustScore w a \<le> 10 then 1 else 0)"
        using decrementTrustScore_known(4) [OF Some, of E 10] d by simp
      show ?thesis
        using Some active True d c
        by (simp add: verifyIdentity_def zeroedBySignature_def Let_def)
    next
      case False
      then have nz: "\<not> zeroedBySignature E a cred w"
        using Some by (auto simp: zeroedBySignature_def)
      show ?thesis
        using Some active False nz
        by (auto simp: verifyIdentity_def Let_def split_def)
    qed
  qed
qed

lemma failed_signature_step:
  assumes "activeWith w ''alice'' (s + 10)" and "0 < s"
  shows "activeWith (perform demoEnv (VerifyIdentity ''alice'' signedBadly) w) ''alice'' s"
proof -
  obtain i where i: "identities w ''alice'' = Some i" "status i = ''active''"
    and g: "getTrustScore w ''alice'' = s + 10"
    using assms(1) by (auto simp: activeWith_def split: option.splits)
  have m: "max 0 (getTrustScore w ''alice'' - 10) = s"
    using g assms(2) by simp
  have d: "decrementTrustScore demoEnv ''alice'' 10 w
             = (None, setIdentityScore ''alice'' s
                        (w\<lparr>trustScores := (trustScores w)(''alice'' \<mapsto> s)\<rparr>))"
    using m assms(2) by (simp add: decrementTrustScore_def Let_def)
  show ?thesis
    using i d
    by (simp add: verifyIdentity_def Let_def signedBadly_def truthy_def demoEnv_def
          activeWith_def setIdentityScore_def getTrustScore_def)
qed

lemma nineFailures_active: "activeWith nineFailures ''alice'' 10"
  unfolding nineFailures_def
  by (simp add: eval_nat_numeral del: perform.simps)
     (intro failed_signature_step; simp add: alice_fresh)

lemma nineFailures_zeroed: "zeroedBySignature demoEnv ''alice'' signedBadly nineFailures"
  using nineFailures_active
  by (auto simp: activeWith_def zeroedBySignature_def signedBadly_def truthy_def demoEnv_def
           split: option.splits)

text \<open>The theorem at the first verification of a new identity, with a bad signature.\<close>

theorem verifyIdentity_entries_witness:
  "countType ''identity_verification''
     (snd (verifyIdentity demoEnv ''alice'' signedBadly aliceWorld))
   = countType ''identity_verification'' aliceWorld + 1"
proof -
  have "\<not> zeroedBySignature demoEnv ''alice'' signedBadly aliceWorld"
    using alice_fresh by (auto simp: activeWith_def zeroedBySignature_def split: option.splits)
  then show ?thesis
    using verifyIdentity_entries [of demoEnv "''alice''" signedBadly aliceWorld] by simp
qed

text \<open>
  C8 as stated fails at the tenth verification with a bad signature of an identity that
  started with 100 points of trust: the call writes a \<open>revocation\<close> entry and a
  \<open>signature_verification\<close> entry, both of type \<open>identity_verification\<close>.
\<close>

theorem verifyIdentity_counterexample:
  "countType ''identity_verification''
     (snd (verifyIdentity demoEnv ''alice'' signedBadly nineFailures))
   = countType ''identity_verification'' nineFailures + 2"
  using nineFailures_zeroed by (rule verifyIdentity_zeroed)

subsection \<open>Governed execution\<close>

lemma countType_other_writeEntry:
  "e_type e \<noteq> ty \<Longrightarrow> countType ty (writeEntry E Returns e w) = countType ty w"
  by (simp add: countType_writeEntry)

lemma logIdentityVerification_policy_count [simp]:
  "countType ''policy_decision'' (logIdentityVerification E a vt r w)
     = countType ''policy_decision'' w"
  by (simp add: logIdentityVerification_def split_def Let_def countType_writeEntry)

lemma revokeIdentity_policy_count [simp]:
  "countType ''policy_decision'' (snd (revokeIdentity E a why w))
     = countType ''policy_decision'' w"
  by (cases "identities w a") (simp_all add: revokeIdentity_def split_def Let_def dateNow_def)

lemma decrementTrustScore_policy_count [simp]:
  "countType ''policy_decision'' (snd (decrementTrustScore E a amount w))
     = countType ''policy_decision'' w"
  by (simp add: decrementTrustScore_def Let_def)

lemma verifyIdentity_returns: "\<exists>r. fst (verifyIdentity E a cred w) = Inr r"
proof (cases "identities w a")
  case None
  then show ?thesis by (simp add: verifyIdentity_def Let_def)
next
  case (Some i)
  have "fst (decrementTrustScore E a 10 w) = None"
    using Some by (rule decrementTrustScore_known(1))
  then show ?thesis
    using Some
    by (cases "decrementTrustScore E a 10 w") (auto simp: verifyIdentity_def Let_def split_def)
qed

lemma verifyIdentity_policy_count [simp]:
  "countType ''policy_decision'' (snd (verifyIdentity E a cred w))
     = countType ''policy_decision'' w"
proof (cases "identities w a")
  case None
  then show ?thesis by (simp add: verifyIdentity_def Let_def)
next
  case (Some i)
  have d: "countType ''policy_decision'' (snd (decrementTrustScore E a 10 w))
             = countType ''policy_decision'' w"
    by simp
  show ?thesis
    using Some d
    by (cases "decrementTrustScore E a 10 w")
       (auto simp: verifyIdentity_def Let_def split_def dateNow_def split: option.splits)
qed

lemma verifyIdentity_verified:
  assumes "fst (verifyIdentity E a cred w) = Inr res" and "verified res"
  shows "trustScores (snd (verifyIdentity E a cred w)) = trustScores w"
proof (cases "identities w a")
  case None
  then show ?thesis using assms by (auto simp: verifyIdentity_def Let_def)
next
  case (Some i)
  show ?thesis
    using Some assms
    by (cases "decrementTrustScore E a 10 w")
       (auto simp: verifyIdentity_def Let_def split_def dateNow_def
             split: option.splits if_splits)
qed

lemma logEscalation_fields [simp]:
  "trustScores (snd (logEscalation E a action ctx why whom w)) = trustScores w"
  "identities (snd (logEscalation E a action ctx why whom w)) = identities w"
  by (simp_all add: logEscalation_def split_def Let_def)

lemma dateNow_trust [simp]: "getTrustScore (snd (dateNow E w)) b = getTrustScore w b"
  by (simp add: getTrustScore_def)

lemma execute_unverified:
  assumes "identityCheckOf E ag ctx w = Inr res" and "\<not> verified res"
  shows "execute E policies ag action ctx executor (w, x)
           = ((emptyResult False)
                \<lparr>r_error := Some (JStr (''Identity verification failed: '' @ v_reason res)),
                 r_trustScore := Some (v_trustScore res)\<rparr>,
              snd (agentVerifyIdentity E ag ctx (snd (dateNow E w))), x)"
  using assms
  by (cases "agentVerifyIdentity E ag ctx (snd (dateNow E w))")
     (simp add: execute_def identityCheckOf_def split_def Let_def)

lemma execute_escalated:
  assumes "identityCheckOf E ag ctx w = Inr res" and "verified res"
    and "requiresEscalation (policyCheckOf E policies ag action ctx w)"
  shows "\<not> success (fst (execute E policies ag action ctx executor (w, x)))"
    and "r_requiresEscalation (fst (execute E policies ag action ctx executor (w, x)))
           = Some True"
    and "r_escalationId (fst (execute E policies ag action ctx executor (w, x))) \<noteq> None"
    and "trustScores (fst (snd (execute E policies ag action ctx executor (w, x))))
           = trustScores (snd (agentVerifyIdentity E ag ctx (snd (dateNow E w))))"
    and "snd (snd (execute E policies ag action ctx executor (w, x))) = x"
  using assms
  by (cases "agentVerifyIdentity E ag ctx (snd (dateNow E w))";
      simp add: execute_def identityCheckOf_def policyCheckOf_def split_def Let_def
        emptyResult_def)+

lemma execute_denied:
  assumes "identityCheckOf E ag ctx w = Inr res" and "verified res"
    and "\<not> requiresEscalation (policyCheckOf E policies ag action ctx w)"
    and "\<not> allowed (policyCheckOf E policies ag action ctx w)"
  shows "\<not> success (fst (execute E policies ag action ctx executor (w, x)))"
    and "r_policyDenied (fst (execute E policies ag action ctx executor (w, x))) = Some True"
    and "trustScores (fst (snd (execute E policies ag action ctx executor (w, x))))
           = trustScores (snd (agentVerifyIdentity E ag ctx (snd (dateNow E w))))"
    and "snd (snd (execute E policies ag action ctx executor (w, x))) = x"
  using assms
  by (cases "agentVerifyIdentity E ag ctx (snd (dateNow E w))";
      simp add: execute_def identityCheckOf_def policyCheckOf_def split_def Let_def
        emptyResult_def)+

lemma execute_allowed:
  assumes "identityCheckOf E ag ctx w = Inr res" and "verified res"
    and "\<not> requiresEscalation (policyCheckOf E policies ag action ctx w)"
    and "allowed (policyCheckOf E policies ag action ctx w)"
  shows "snd (snd (execute E policies ag action ctx executor (w, x)))
           = snd (runTask executor ctx x)"
  using assms
  by (cases "agentVerifyIdentity E ag ctx (snd (dateNow E w))")
     (simp add: execute_def identityCheckOf_def policyCheckOf_def split_def Let_def
        caught_def split: option.splits)

lemma identityCheckOf_returns: "\<exists>res. identityCheckOf E ag ctx w = Inr res"
  by (simp add: identityCheckOf_def agentVerifyIdentity_def verifyIdentity_returns)

lemma verified_keeps_trust:
  assumes "identityCheckOf E ag ctx w = Inr res" and "verified res"
  shows "trustScores (snd (agentVerifyIdentity E ag ctx (snd (dateNow E w)))) = trustScores w"
proof -
  have "trustScores (snd (agentVerifyIdentity E ag ctx (snd (dateNow E w))))
          = trustScores (snd (dateNow E w))"
    using assms unfolding identityCheckOf_def agentVerifyIdentity_def
    by (rule verifyIdentity_verified)
  then show ?thesis by simp
qed

lemma runTask_none: "snd (runTask None ctx x) = x"
  by (simp add: runTask_def)

lemma runTask_some: "snd (runTask (Some task) ctx x) = snd (task ctx x)"
  by (simp add: runTask_def split: prod.splits sum.splits)

text \<open>
  C4. In a call of \<open>execute\<close>: when the identity check fails, the call returns
  \<open>success: false\<close>, no \<open>policy_decision\<close> entry is written (the policy engine, which
  writes one in every call, is not invoked) and the task's state is untouched; when the
  decision requires escalation, the call returns \<open>success: false, requiresEscalation:
  true\<close> with an escalation id and the task's state is untouched; when the decision is a
  denial, the call returns \<open>success: false, policyDenied: true\<close> and the task's state is
  untouched; on escalation and denial every trust score is what it was before the call.
  Whenever the task's state has changed, the identity was verified, the decision was
  allowed without escalation, and the change is the task's.
\<close>

theorem execute_gates_the_task:
  "(\<exists>res. identityCheckOf E ag ctx w = Inr res)
   \<and> (\<forall>res. identityCheckOf E ag ctx w = Inr res \<and> \<not> verified res \<longrightarrow>
         \<not> success (fst (execute E policies ag action ctx executor (w, x)))
         \<and> countType ''policy_decision''
               (fst (snd (execute E policies ag action ctx executor (w, x))))
             = countType ''policy_decision'' w
         \<and> snd (snd (execute E policies ag action ctx executor (w, x))) = x)
   \<and> (\<forall>res. identityCheckOf E ag ctx w = Inr res \<and> verified res
           \<and> requiresEscalation (policyCheckOf E policies ag action ctx w) \<longrightarrow>
         \<not> success (fst (execute E policies ag action ctx executor (w, x)))
         \<and> r_requiresEscalation (fst (execute E policies ag action ctx executor (w, x)))
             = Some True
         \<and> r_escalationId (fst (execute E policies ag action ctx executor (w, x))) \<noteq> None
         \<and> trustScores (fst (snd (execute E policies ag action ctx executor (w, x))))
             = trustScores w
         \<and> snd (snd (execute E policies ag action ctx executor (w, x))) = x)
   \<and> (\<forall>res. identityCheckOf E ag ctx w = Inr res \<and> verified res
           \<and> \<not> requiresEscalation (policyCheckOf E policies ag action ctx w)
           \<and> \<not> allowed (policyCheckOf E policies ag action ctx w) \<longrightarrow>
         \<not> success (fst (execute E policies ag action ctx executor (w, x)))
         \<and> r_policyDenied (fst (execute E policies ag action ctx executor (w, x))) = Some True
         \<and> trustScores (fst (snd (execute E policies ag action ctx executor (w, x))))
             = trustScores w
         \<and> snd (snd (execute E policies ag action ctx executor (w, x))) = x)
   \<and> (snd (snd (execute E policies ag action ctx executor (w, x))) \<noteq> x \<longrightarrow>
         (\<exists>res task. identityCheckOf E ag ctx w = Inr res \<and> verified res
            \<and> allowed (policyCheckOf E policies ag action ctx w)
            \<and> \<not> requiresEscalation (policyCheckOf E policies ag action ctx w)
            \<and> executor = Some task
            \<and> snd (snd (execute E policies ag action ctx executor (w, x))) = snd (task ctx x)))"
proof -
  let ?run = "execute E policies ag action ctx executor (w, x)"
  let ?d = "policyCheckOf E policies ag action ctx w"
  obtain res where res: "identityCheckOf E ag ctx w = Inr res"
    using identityCheckOf_returns by blast
  have unverified: "\<not> success (fst ?run)
         \<and> countType ''policy_decision'' (fst (snd ?run)) = countType ''policy_decision'' w
         \<and> snd (snd ?run) = x"
    if "\<not> verified res"
    using execute_unverified [OF res that, of policies action executor x]
    by (simp add: emptyResult_def agentVerifyIdentity_def)
  have escalated: "\<not> success (fst ?run) \<and> r_requiresEscalation (fst ?run) = Some True
         \<and> r_escalationId (fst ?run) \<noteq> None \<and> trustScores (fst (snd ?run)) = trustScores w
         \<and> snd (snd ?run) = x"
    if v: "verified res" and e: "requiresEscalation ?d"
    using execute_escalated [OF res v e, of executor x] verified_keeps_trust [OF res v]
    by simp
  have denied: "\<not> success (fst ?run) \<and> r_policyDenied (fst ?run) = Some True
         \<and> trustScores (fst (snd ?run)) = trustScores w \<and> snd (snd ?run) = x"
    if v: "verified res" and e: "\<not> requiresEscalation ?d" and a: "\<not> allowed ?d"
    using execute_denied [OF res v e a, of executor x] verified_keeps_trust [OF res v]
    by simp
  have ran: "\<exists>task. verified res \<and> allowed ?d \<and> \<not> requiresEscalation ?d
               \<and> executor = Some task \<and> snd (snd ?run) = snd (task ctx x)"
    if changed: "snd (snd ?run) \<noteq> x"
  proof -
    have v: "verified res" using changed unverified by blast
    have e: "\<not> requiresEscalation ?d" using changed escalated v by blast
    have a: "allowed ?d" using changed denied v e by blast
    have t: "snd (snd ?run) = snd (runTask executor ctx x)"
      using res v e a by (rule execute_allowed)
    then obtain task where "executor = Some task"
      using changed by (cases executor) (simp_all add: runTask_none)
    then show ?thesis using v e a t by (simp add: runTask_some)
  qed
  show ?thesis
    using res unverified escalated denied ran by (simp (no_asm_simp)) blast
qed

lemma support_verified:
  "identityCheckOf demoEnv supportAgent Map.empty supportWorld
     = Inr \<lparr>verified = True, v_reason = ''Identity verified successfully'',
             v_trustScore = 100\<rparr>"
  by (simp add: identityCheckOf_def agentVerifyIdentity_def supportAgent_def supportWorld_def
        createIdentity_def freshWorld_def verifyIdentity_def dateNow_def truthy_def
        getTrustScore_def Let_def)

lemma support_denied:
  "policyCheckOf demoEnv demoPolicies supportAgent ''delete:x'' Map.empty supportWorld
     = \<lparr>allowed = False, reason = ''Action explicitly denied by policy rule: delete:*'',
        requiresEscalation = False, escalationRule = None\<rparr>"
  by (simp add: policyCheckOf_def checkPermission_decision demoPolicies_def supportAgent_def
        escalateRules_def denyRules_def escalationMatch_def matchesPattern_def endsWith_def)

text \<open>
  The theorem at an agent with a fresh identity and a policy that denies \<open>delete:*\<close>: the
  call is denied and the task, which would count its runs, has not run.
\<close>

theorem execute_gates_the_task_witness:
  "r_policyDenied
     (fst (execute demoEnv demoPolicies supportAgent ''delete:x'' Map.empty
             (Some countingTask) (supportWorld, 0 :: nat))) = Some True
   \<and> snd (snd (execute demoEnv demoPolicies supportAgent ''delete:x'' Map.empty
                  (Some countingTask) (supportWorld, 0 :: nat))) = 0"
proof -
  let ?res = "\<lparr>verified = True, v_reason = ''Identity verified successfully'',
               v_trustScore = 100\<rparr>"
  have h: "identityCheckOf demoEnv supportAgent Map.empty supportWorld = Inr ?res
           \<and> verified ?res
           \<and> \<not> requiresEscalation
                 (policyCheckOf demoEnv demoPolicies supportAgent ''delete:x'' Map.empty
                    supportWorld)
           \<and> \<not> allowed
                 (policyCheckOf demoEnv demoPolicies supportAgent ''delete:x'' Map.empty
                    supportWorld)"
    by (simp add: support_verified support_denied)
  note T = execute_gates_the_task
             [where E = demoEnv and policies = demoPolicies and ag = supportAgent
                and action = "''delete:x''" and ctx = Map.empty
                and executor = "Some countingTask" and w = supportWorld and x = "0 :: nat",
              THEN conjunct2, THEN conjunct2, THEN conjunct2, THEN conjunct1,
              rule_format, OF h]
  then show ?thesis by simp
qed

end
